theory Spec2Isabelle
  imports Main
begin

unbundle bit_operations_syntax

section \<open>The HD44780U driver (LCD.py)\<close>

text \<open>
  A shallow embedding of the class \<open>LCD\<close> of \<open>LCD.py\<close>. Python integers are
  \<open>int\<close>; \<open>|\<close>, \<open>&\<close>, \<open>~\<close> and \<open><<\<close> are \<open>OR\<close>, \<open>AND\<close>, \<open>NOT\<close> and
  \<open>push_bit\<close> on \<open>int\<close> (two's complement, unbounded, as in Python). Strings are
  \<open>string\<close>, a character being its code point below 256.

  The driver only ever writes to its collaborators: every call of
  \<open>I2C.writeto\<close> and of \<open>time.sleep_us\<close> is recorded, in order, as an event. A
  method returns its outcome (the exception raised, or its value) together with
  the events it issued up to that point; the bus write itself is taken to succeed.
  The \<open>type(x) is not int\<close> and \<open>type(x) is not str\<close> guards are the typing of
  the model.
\<close>

subsection \<open>Module constants\<close>

definition LCD_CLEARDISPLAY :: int where "LCD_CLEARDISPLAY = 1"

definition LCD_DISPLAYCONTROL :: int where "LCD_DISPLAYCONTROL = push_bit 3 1"
definition LCD_DISPLAYON :: int where "LCD_DISPLAYON = push_bit 2 1"
definition LCD_CURSORON :: int where "LCD_CURSORON = push_bit 1 1"
definition LCD_BLINKON :: int where "LCD_BLINKON = push_bit 0 1"

definition LCD_ENTRYMODESET :: int where "LCD_ENTRYMODESET = push_bit 2 1"
definition LCD_ENTRYLEFT :: int where "LCD_ENTRYLEFT = push_bit 1 1"

definition LCD_ENABLE_BIT :: int where "LCD_ENABLE_BIT = push_bit 2 1"
definition LCD_BACKLIGHT :: int where "LCD_BACKLIGHT = push_bit 3 1"

definition LCD_COMMAND :: int where "LCD_COMMAND = push_bit 0 0"
definition LCD_CHARACTER :: int where "LCD_CHARACTER = push_bit 0 1"

definition LCD_RETURNHOME :: int where "LCD_RETURNHOME = push_bit 1 1"

definition LCD_SET_DDRAM :: int where "LCD_SET_DDRAM = push_bit 7 1"

subsection \<open>Exceptions, events, outcomes\<close>

text \<open>
  Every \<open>raise LCDException(message)\<close> of the source, one constructor for each
  message (the two messages of \<open>set_cursor\<close> carry the offending number).
\<close>

datatype LCDException =
    NoDeviceFound
  | ByteOutOfBounds
  | InvalidRowForCursor int
  | InvalidColumnForCursor int
  | SingleCharacterExpected
  | InvalidRowForWriting

datatype event =
    Sleep_us int
  | Writeto int int

type_synonym 'a io = "(LCDException + 'a) \<times> event list"

definition ok :: "'a \<Rightarrow> 'a io" where
  "ok a = (Inr a, [])"

definition raise :: "LCDException \<Rightarrow> 'a io" where
  "raise e = (Inl e, [])"

definition emit :: "event \<Rightarrow> unit io" where
  "emit ev = (Inr (), [ev])"

text \<open>
  Sequencing of statements: the second runs only if the first raised nothing,
  and whatever the first issued stays issued.
\<close>

definition bind_io :: "'a io \<Rightarrow> ('a \<Rightarrow> 'b io) \<Rightarrow> 'b io" where
  "bind_io m f =
     (case m of
        (Inl e, evs) \<Rightarrow> (Inl e, evs)
      | (Inr a, evs) \<Rightarrow> (case f a of (r, evs') \<Rightarrow> (r, evs @ evs')))"

text \<open>A \<open>for x in xs: body\<close> loop.\<close>

primrec for_each :: "'a list \<Rightarrow> ('a \<Rightarrow> unit io) \<Rightarrow> unit io" where
  "for_each [] body = ok ()"
| "for_each (x # xs) body = bind_io (body x) (\<lambda>_. for_each xs body)"

text \<open>What reached the bus: the bytes of the \<open>writeto\<close> calls, in order.\<close>

fun transport_writes :: "event list \<Rightarrow> int list" where
  "transport_writes [] = []"
| "transport_writes (Sleep_us n # evs) = transport_writes evs"
| "transport_writes (Writeto a b # evs) = b # transport_writes evs"

subsection \<open>The object\<close>

record lcd =
  LCD__display_address :: int
  LCD__rows :: int
  LCD__cols :: int
  LCD__display_on :: bool
  LCD__blink_on :: bool
  LCD__cursor_on :: bool

text \<open>
  The object \<open>LCD(Pin(14), Pin(15))\<close> of \<open>example.py\<close>, once constructed, for a
  display that answers at the usual address 0x27: four rows of twenty columns.
\<close>

definition example_display :: lcd where
  "example_display =
     \<lparr>LCD__display_address = 0x27, LCD__rows = 4, LCD__cols = 20,
      LCD__display_on = True, LCD__blink_on = False, LCD__cursor_on = False\<rparr>"

subsection \<open>Protocol layer\<close>

definition write_i2c_byte :: "lcd \<Rightarrow> int \<Rightarrow> unit io" where
  "write_i2c_byte self byte =
     (if \<not> (0 \<le> byte \<and> byte \<le> 255) then raise ByteOutOfBounds
      else emit (Writeto (LCD__display_address self) byte))"

definition toggle_enable :: "lcd \<Rightarrow> int \<Rightarrow> unit io" where
  "toggle_enable self v =
     bind_io (emit (Sleep_us 600)) (\<lambda>_.
     bind_io (write_i2c_byte self (v OR LCD_ENABLE_BIT)) (\<lambda>_.
     bind_io (emit (Sleep_us 600)) (\<lambda>_.
     bind_io (write_i2c_byte self (v AND NOT LCD_ENABLE_BIT)) (\<lambda>_.
     emit (Sleep_us 600)))))"

definition send_byte :: "lcd \<Rightarrow> int \<Rightarrow> int \<Rightarrow> unit io" where
  "send_byte self byte mode =
     (let first = (mode OR (byte AND 0xf0)) OR push_bit 3 1;
          second = (mode OR (push_bit 4 byte AND 0xf0)) OR push_bit 3 1
      in for_each [first, second] (\<lambda>byte.
           bind_io (write_i2c_byte self byte) (\<lambda>_. toggle_enable self byte)))"

text \<open>
  What one pass of the loop of \<open>send_byte\<close> issues for a frame when its three
  bytes are in range: line 127, then the body of \<open>toggle_enable\<close>.
\<close>

definition frame_events :: "int \<Rightarrow> int \<Rightarrow> event list" where
  "frame_events address frame =
     [Writeto address frame, Sleep_us 600,
      Writeto address (frame OR LCD_ENABLE_BIT), Sleep_us 600,
      Writeto address (frame AND NOT LCD_ENABLE_BIT), Sleep_us 600]"

definition update_display_control :: "lcd \<Rightarrow> unit io" where
  "update_display_control self =
     (let display_control = LCD_DISPLAYCONTROL;
          display_control =
            (if LCD__display_on self then display_control OR LCD_DISPLAYON
             else display_control);
          display_control =
            (if LCD__blink_on self then display_control OR LCD_BLINKON
             else display_control);
          display_control =
            (if LCD__cursor_on self then display_control OR LCD_CURSORON
             else display_control)
      in send_byte self display_control LCD_COMMAND)"

text \<open>
  \<open>__init__\<close>. \<open>devices\<close> is what \<open>I2C.scan()\<close> answers; the pins only reach the
  \<open>I2C\<close> constructor. The three flags do not exist before lines 65 to 67 assign
  them and nothing reads them before: the record starts them at \<open>False\<close>.
  An exception leaves no object behind.
\<close>

definition init :: "int list \<Rightarrow> int option \<Rightarrow> int \<Rightarrow> int \<Rightarrow> lcd io" where
  "init devices display_address rows cols =
     bind_io
       (case display_address of
          None \<Rightarrow> (if length devices = 0 then raise NoDeviceFound else ok (devices ! 0))
        | Some a \<Rightarrow> ok a)
       (\<lambda>address.
          let self = \<lparr>LCD__display_address = address, LCD__rows = rows, LCD__cols = cols,
                      LCD__display_on = False, LCD__blink_on = False, LCD__cursor_on = False\<rparr>
          in
          bind_io (send_byte self 0x03 LCD_COMMAND) (\<lambda>_.
          bind_io (send_byte self 0x03 LCD_COMMAND) (\<lambda>_.
          bind_io (send_byte self 0x03 LCD_COMMAND) (\<lambda>_.
          bind_io (send_byte self 0x02 LCD_COMMAND) (\<lambda>_.
          bind_io (send_byte self (LCD_ENTRYMODESET OR LCD_ENTRYLEFT) LCD_COMMAND) (\<lambda>_.
          let self = self\<lparr>LCD__display_on := True\<rparr>;
              self = self\<lparr>LCD__blink_on := False\<rparr>;
              self = self\<lparr>LCD__cursor_on := False\<rparr>
          in
          bind_io (update_display_control self) (\<lambda>_.
          bind_io (send_byte self LCD_CLEARDISPLAY LCD_COMMAND) (\<lambda>_.
          ok self))))))))"

definition set_cursor :: "lcd \<Rightarrow> int \<Rightarrow> int \<Rightarrow> unit io" where
  "set_cursor self row col =
     (let row_offsets = [0x00, 0x40, 0x14, 0x54 :: int] in
      if \<not> (0 \<le> row \<and> row < int (length row_offsets)) then raise (InvalidRowForCursor row)
      else if \<not> (0 \<le> col \<and> col < LCD__cols self) then raise (InvalidColumnForCursor col)
      else
        let v = (LCD_SET_DDRAM OR col) + row_offsets ! nat row
        in send_byte self v LCD_COMMAND)"

definition clear :: "lcd \<Rightarrow> unit io" where
  "clear self = send_byte self LCD_CLEARDISPLAY LCD_COMMAND"

definition return_home :: "lcd \<Rightarrow> unit io" where
  "return_home self = send_byte self LCD_RETURNHOME LCD_COMMAND"

text \<open>
  The three setters assign a field and resend the control byte; they return the
  object as the assignment left it, and the outcome of the send.
\<close>

definition display_on :: "lcd \<Rightarrow> bool \<Rightarrow> lcd \<times> unit io" where
  "display_on self v =
     (let self = self\<lparr>LCD__display_on := v\<rparr>
      in (self, update_display_control self))"

definition blink_on :: "lcd \<Rightarrow> bool \<Rightarrow> lcd \<times> unit io" where
  "blink_on self v =
     (let self = self\<lparr>LCD__blink_on := v\<rparr>;
          self = (if LCD__blink_on self then self\<lparr>LCD__cursor_on := True\<rparr> else self)
      in (self, update_display_control self))"

definition cursor_on :: "lcd \<Rightarrow> bool \<Rightarrow> lcd \<times> unit io" where
  "cursor_on self v =
     (let self = self\<lparr>LCD__cursor_on := v\<rparr>
      in (self, update_display_control self))"

definition display_off :: "lcd \<Rightarrow> lcd \<times> unit io" where
  "display_off self = display_on self False"

definition cursor_off :: "lcd \<Rightarrow> lcd \<times> unit io" where
  "cursor_off self = cursor_on self False"

definition blink_off :: "lcd \<Rightarrow> lcd \<times> unit io" where
  "blink_off self = blink_on self False"

subsection \<open>Layout layer\<close>

text \<open>
  The string methods of the interpreter that \<open>write\<close> uses. The driver runs
  on MicroPython (it imports \<open>machine\<close>), where \<open>str.split()\<close> and
  \<open>str.rstrip()\<close> without argument cut at the six ASCII whitespace characters:
  tab, line feed, vertical tab, form feed, carriage return and space. Slices
  \<open>s[:n]\<close> and \<open>s[n:]\<close> count a negative \<open>n\<close> from the end.
\<close>

definition isspace :: "char \<Rightarrow> bool" where
  "isspace c = (c \<in> set [CHR 0x09, CHR 0x0A, CHR 0x0B, CHR 0x0C, CHR 0x0D, CHR 0x20])"

fun split_from :: "string \<Rightarrow> string \<Rightarrow> string list" where
  "split_from w [] = (if w = [] then [] else [w])"
| "split_from w (c # cs) =
     (if isspace c then (if w = [] then split_from [] cs else w # split_from [] cs)
      else split_from (w @ [c]) cs)"

definition str_split :: "string \<Rightarrow> string list" where
  "str_split s = split_from [] s"

definition str_rstrip :: "string \<Rightarrow> string" where
  "str_rstrip s = rev (dropWhile isspace (rev s))"

definition slice_to :: "int \<Rightarrow> 'a list \<Rightarrow> 'a list" where
  "slice_to n xs = (if 0 \<le> n then take (nat n) xs else take (nat (int (length xs) + n)) xs)"

definition slice_from :: "int \<Rightarrow> 'a list \<Rightarrow> 'a list" where
  "slice_from n xs = (if 0 \<le> n then drop (nat n) xs else drop (nat (int (length xs) + n)) xs)"

definition write_character :: "lcd \<Rightarrow> string \<Rightarrow> unit io" where
  "write_character self character =
     (if \<not> (length character = 1) then raise SingleCharacterExpected
      else send_byte self (of_char (hd character)) LCD_CHARACTER)"

definition write_string :: "lcd \<Rightarrow> string \<Rightarrow> unit io" where
  "write_string self string = for_each string (\<lambda>character. write_character self [character])"

text \<open>The inner loop of \<open>write\<close> (lines 170 to 174): it leaves \<open>words_idx\<close> and \<open>current_line\<close>.\<close>

function write_inner_loop :: "int \<Rightarrow> string list \<Rightarrow> nat \<Rightarrow> string \<Rightarrow> nat \<times> string" where
  "write_inner_loop cols words words_idx current_line =
     (if words_idx < length words \<and>
         int (length current_line) + int (length (words ! words_idx)) \<le> cols
      then write_inner_loop cols words (words_idx + 1) (current_line @ words ! words_idx @ '' '')
      else (words_idx, current_line))"
  by pat_completeness auto
termination
  by (relation "measure (\<lambda>(cols, words, words_idx, current_line). length words - words_idx)") auto

text \<open>The outer loop (lines 167 to 188), from the state \<open>words\<close>, \<open>words_idx\<close>, \<open>row\<close>.\<close>

function write_outer_loop :: "lcd \<Rightarrow> string list \<Rightarrow> nat \<Rightarrow> int \<Rightarrow> int io" where
  "write_outer_loop self words words_idx row =
     (if row < LCD__rows self then
        (case write_inner_loop (LCD__cols self) words words_idx [] of
           (words_idx, current_line) \<Rightarrow>
             bind_io (set_cursor self row 0) (\<lambda>_.
               if length current_line > 0 then
                 bind_io (write_string self (str_rstrip current_line)) (\<lambda>_.
                   write_outer_loop self words words_idx (row + 1))
               else if words_idx < length words then
                 bind_io (write_string self (slice_to (LCD__cols self) (words ! words_idx))) (\<lambda>_.
                   write_outer_loop self
                     (words[words_idx := slice_from (LCD__cols self) (words ! words_idx)])
                     words_idx (row + 1))
               else ok row))
      else ok row)"
  by pat_completeness auto
termination
  by (relation "measure (\<lambda>(self, words, words_idx, row). nat (LCD__rows self - row))") auto

text \<open>\<open>write\<close> (the name is taken in Isabelle, hence the suffix).\<close>

definition write_text :: "lcd \<Rightarrow> string \<Rightarrow> int \<Rightarrow> int io" where
  "write_text self string row = write_outer_loop self (str_split string) 0 row"

definition write_center :: "lcd \<Rightarrow> string \<Rightarrow> int \<Rightarrow> unit io" where
  "write_center self string row =
     (if \<not> (0 \<le> row \<and> row < LCD__rows self) then raise InvalidRowForWriting
      else
        let length = int (length string)
        in bind_io (set_cursor self row ((LCD__cols self - length) div 2)) (\<lambda>_.
           write_string self string))"

definition write_left :: "lcd \<Rightarrow> string \<Rightarrow> int \<Rightarrow> unit io" where
  "write_left self string row =
     (if \<not> (0 \<le> row \<and> row < LCD__rows self) then raise InvalidRowForWriting
      else bind_io (set_cursor self row 0) (\<lambda>_. write_string self string))"

definition write_right :: "lcd \<Rightarrow> string \<Rightarrow> int \<Rightarrow> unit io" where
  "write_right self string row =
     (if \<not> (0 \<le> row \<and> row < LCD__rows self) then raise InvalidRowForWriting
      else bind_io (set_cursor self row (LCD__cols self - int (length string))) (\<lambda>_.
           write_string self string))"

subsection \<open>The render plan of the specification\<close>

text \<open>
  The word wrap in the words of the specification, over a queue of words instead of
  an index into a list that is updated in place. \<open>spec_pack\<close> packs greedily:
  it appends the next word and a space as long as the length of the line plus the
  length of the next word is at most \<open>cols\<close>.
\<close>

fun spec_pack :: "int \<Rightarrow> string \<Rightarrow> string list \<Rightarrow> string \<times> string list" where
  "spec_pack cols line [] = (line, [])"
| "spec_pack cols line (w # ws) =
     (if int (length line) + int (length w) \<le> cols then spec_pack cols (line @ w @ '' '') ws
      else (line, w # ws))"

text \<open>
  The render plan for \<open>n\<close> rows left: the texts of the rows written, in order,
  and whether the words were all consumed with rows left (the stop on an empty
  line). A row gets the trimmed packed line; if nothing fits and words remain, it
  gets the first \<open>cols\<close> characters of the next word, whose remainder stays first in
  the queue; when the rows run out the remaining words are dropped.
\<close>

fun spec_render_plan :: "int \<Rightarrow> nat \<Rightarrow> string list \<Rightarrow> string list \<times> bool" where
  "spec_render_plan cols 0 ws = ([], False)"
| "spec_render_plan cols (Suc n) ws =
     (case spec_pack cols [] ws of
        (line, rest) \<Rightarrow>
          if line \<noteq> [] then
            (case spec_render_plan cols n rest of (ls, fin) \<Rightarrow> (str_rstrip line # ls, fin))
          else
            (case rest of
               [] \<Rightarrow> ([], True)
             | w # rest' \<Rightarrow>
                 (case spec_render_plan cols n (slice_from cols w # rest') of
                    (ls, fin) \<Rightarrow> (slice_to cols w # ls, fin))))"

text \<open>
  Carrying a plan out from a row on: for each line, set the cursor to column 0 of
  the row and write the line; then, if the plan stopped with rows left, set the
  cursor on the row reached. The row reached is the result.
\<close>

fun spec_write_lines :: "lcd \<Rightarrow> int \<Rightarrow> string list \<Rightarrow> unit io" where
  "spec_write_lines self row [] = ok ()"
| "spec_write_lines self row (l # ls) =
     bind_io (set_cursor self row 0) (\<lambda>_.
     bind_io (write_string self l) (\<lambda>_. spec_write_lines self (row + 1) ls))"

definition spec_finish :: "lcd \<Rightarrow> int \<Rightarrow> bool \<Rightarrow> int io" where
  "spec_finish self row fin =
     (if fin then bind_io (set_cursor self row 0) (\<lambda>_. ok row) else ok row)"

text \<open>
  \<open>' '.join(words)\<close>: the words with single spaces between them, which is the line
  \<open>write\<close> builds, less its trailing space.
\<close>

fun join_words :: "string list \<Rightarrow> string" where
  "join_words [] = []"
| "join_words [w] = w"
| "join_words (w # v # ws) = w @ '' '' @ join_words (v # ws)"

subsection \<open>What reaches the bus\<close>

text \<open>
  The bytes on the bus, by the wire layout of the specification. A byte is sent
  as its high nibble and then its low nibble; each nibble travels in bits 7 to 4
  of a frame that has the backlight bit 3 set and the mode in bit 0 (0 a command,
  1 a character); each frame is written and then pulsed, which makes three writes,
  with the enable bit 2 clear, set and clear again.
\<close>

definition spec_nibble_frames :: "int \<Rightarrow> int \<Rightarrow> int list" where
  "spec_nibble_frames mode nibble =
     [16 * nibble + 8 + mode, 16 * nibble + 8 + 4 + mode, 16 * nibble + 8 + mode]"

definition spec_bus_bytes :: "int \<Rightarrow> int \<Rightarrow> int list" where
  "spec_bus_bytes mode v =
     spec_nibble_frames mode (v div 16 mod 16) @ spec_nibble_frames mode (v mod 16)"

text \<open>
  The cursor-set command for a position is the byte \<open>SET_DDRAM | (offset + col)\<close>
  with the offsets 0x00, 0x40, 0x14, 0x54 of the rows 0 to 3, sent as a command; a
  string is its characters sent one after the other; the lines of a render plan
  are, row after row, the cursor set for column 0 of the row and then the line.
\<close>

definition spec_cursor_bytes :: "int \<Rightarrow> int \<Rightarrow> int list" where
  "spec_cursor_bytes row col =
     spec_bus_bytes LCD_COMMAND (LCD_SET_DDRAM OR ([0x00, 0x40, 0x14, 0x54] ! nat row + col))"

definition spec_string_bytes :: "string \<Rightarrow> int list" where
  "spec_string_bytes s = concat (map (\<lambda>c. spec_bus_bytes LCD_CHARACTER (of_char c)) s)"

fun spec_lines_bytes :: "int \<Rightarrow> string list \<Rightarrow> int list" where
  "spec_lines_bytes row [] = []"
| "spec_lines_bytes row (l # ls) =
     spec_cursor_bytes row 0 @ spec_string_bytes l @ spec_lines_bytes (row + 1) ls"

section \<open>Properties\<close>

subsection \<open>Sequencing\<close>

lemma bind_io_ok [simp]: "bind_io (ok a) f = f a"
  by (simp add: bind_io_def ok_def split: prod.splits)

lemma bind_io_raise [simp]: "bind_io (raise e) f = raise e"
  by (simp add: bind_io_def raise_def)

lemma bind_io_Inr [simp]: "bind_io (Inr a, evs) f = (fst (f a), evs @ snd (f a))"
  by (simp add: bind_io_def split: prod.splits)

lemma bind_io_Inl [simp]: "bind_io (Inl e, evs) f = (Inl e, evs)"
  by (simp add: bind_io_def)

lemma bind_io_assoc: "bind_io (bind_io m f) g = bind_io m (\<lambda>a. bind_io (f a) g)"
  by (cases m; cases "fst m") (auto simp: bind_io_def split: prod.splits sum.splits)

lemma bind_io_return: "bind_io m ok = m"
  by (cases m; cases "fst m") (auto simp: bind_io_def ok_def split: prod.splits sum.splits)

lemma frame_nonneg: "0 \<le> m \<Longrightarrow> 0 \<le> (m OR (n AND 0xf0)) OR (8::int)"
  by (simp add: or_nonnegative_int_iff)

lemma frame_upper:
  assumes "0 \<le> m" "m < (256::int)"
  shows "(m OR (n AND 0xf0)) OR 8 < 256"
proof -
  have a: "n AND 0xf0 < 2 ^ 8" using AND_upper2' [of 240 255 n] by simp
  have b: "0 \<le> n AND 0xf0" by (simp add: and_nonnegative_int_iff)
  have c: "m < 2 ^ 8" using assms by simp
  from OR_upper [OF assms(1) c a] have d: "m OR (n AND 0xf0) < 2 ^ 8" .
  have e: "0 \<le> m OR (n AND 0xf0)" using assms b by (simp add: or_nonnegative_int_iff)
  have "(8::int) < 2 ^ 8" by simp
  from OR_upper [OF e d this] show ?thesis by simp
qed

lemma frame_enable_upper:
  assumes "0 \<le> f" "f < (256::int)"
  shows "f OR 4 < 256" "0 \<le> f OR 4" "0 \<le> f AND NOT 4" "f AND NOT 4 < 256"
proof -
  have "f < 2 ^ 8" "(4::int) < 2 ^ 8" using assms by simp_all
  from OR_upper [OF assms(1) this] show "f OR 4 < 256" by simp
  show "0 \<le> f OR 4" using assms by (simp add: or_nonnegative_int_iff)
  show "0 \<le> f AND NOT 4" using assms by (simp add: and_nonnegative_int_iff)
  have "f AND NOT 4 \<le> f" using assms(1) by (rule AND_upper1)
  then show "f AND NOT 4 < 256" using assms by simp
qed

lemma frame_io:
  assumes "0 \<le> f" "f < 256"
  shows "bind_io (write_i2c_byte self f) (\<lambda>_. toggle_enable self f) =
         (Inr (), frame_events (LCD__display_address self) f)"
  using assms frame_enable_upper [OF assms]
  by (simp add: write_i2c_byte_def toggle_enable_def emit_def frame_events_def LCD_ENABLE_BIT_def)

lemma send_byte_events:
  assumes "mode = LCD_COMMAND \<or> mode = LCD_CHARACTER"
  shows "send_byte self byte mode =
         (Inr (), frame_events (LCD__display_address self) ((mode OR (byte AND 0xf0)) OR 8) @
                  frame_events (LCD__display_address self) ((mode OR (push_bit 4 byte AND 0xf0)) OR 8))"
proof -
  have m: "0 \<le> mode" "mode < 256" using assms by (auto simp: LCD_COMMAND_def LCD_CHARACTER_def)
  show ?thesis
    using frame_io [OF frame_nonneg [OF m(1)] frame_upper [OF m], of self]
    by (simp add: send_byte_def Let_def ok_def)
qed


lemma transport_writes_append [simp]:
  "transport_writes (xs @ ys) = transport_writes xs @ transport_writes ys"
  by (induction xs rule: transport_writes.induct) simp_all

lemma transport_writes_frame:
  "transport_writes (frame_events a f) = [f, f OR 4, f AND NOT 4]"
  by (simp add: frame_events_def LCD_ENABLE_BIT_def)

lemma frame_enable_clear:
  assumes "m = 0 \<or> m = (1::int)"
  shows "((m OR (n AND 0xf0)) OR 8) AND NOT 4 = (m OR (n AND 0xf0)) OR 8"
  using assms by (auto simp: bit.conj_disj_distrib2 and.assoc)

lemma mode_cases: "mode = LCD_COMMAND \<or> mode = LCD_CHARACTER \<Longrightarrow> mode = 0 \<or> mode = 1"
  by (auto simp: LCD_COMMAND_def LCD_CHARACTER_def)

lemma send_byte_writes:
  assumes "mode = LCD_COMMAND \<or> mode = LCD_CHARACTER"
  shows "transport_writes (snd (send_byte self byte mode)) =
         [(mode OR (byte AND 0xf0)) OR 8, ((mode OR (byte AND 0xf0)) OR 8) OR 4,
          (mode OR (byte AND 0xf0)) OR 8,
          (mode OR (push_bit 4 byte AND 0xf0)) OR 8, ((mode OR (push_bit 4 byte AND 0xf0)) OR 8) OR 4,
          (mode OR (push_bit 4 byte AND 0xf0)) OR 8]"
  unfolding send_byte_events [OF assms] snd_conv transport_writes_append transport_writes_frame
    frame_enable_clear [OF mode_cases [OF assms]]
  by simp

lemma frame_high_nibble:
  assumes "m = 0 \<or> m = (1::int)"
  shows "((m OR (n AND 0xf0)) OR 8) AND 0xf0 = n AND 0xf0"
    and "(((m OR (n AND 0xf0)) OR 8) OR 4) AND 0xf0 = n AND 0xf0"
  using assms by (auto simp: bit.conj_disj_distrib2 and.assoc)

lemma frame_bit3:
  "bit ((m OR (n AND 0xf0)) OR (8::int)) 3"
  "bit (((m OR (n AND 0xf0)) OR (8::int)) OR 4) 3"
  by (simp_all add: bit_or_iff bit_and_iff bit_not_iff)

lemma frame_bit0:
  "bit ((m OR (n AND 0xf0)) OR (8::int)) 0 = bit m 0"
  "bit (((m OR (n AND 0xf0)) OR (8::int)) OR 4) 0 = bit m 0"
  by (simp_all add: bit_or_iff bit_and_iff bit_not_iff)

lemma frame_bit2:
  assumes "m = 0 \<or> m = (1::int)"
  shows "\<not> bit ((m OR (n AND 0xf0)) OR (8::int)) 2"
    and "bit (((m OR (n AND 0xf0)) OR (8::int)) OR 4) 2"
  using assms by (auto simp add: bit_or_iff bit_and_iff bit_not_iff)

lemma low_nibble_shifted: "push_bit 4 (n::int) AND 0xf0 = push_bit 4 (n AND 0x0f)"
  by (simp add: push_bit_and)

text \<open>
  Claim C1, as the code has it. For every value in 0..255 and either mode,
  \<open>send_byte\<close> succeeds and produces exactly six transport writes, three for each
  nibble (the frame, the frame with the enable bit, the frame again without it).
  Each has bit 3 (backlight) set and bit 0 equal to the low bit of the mode; the
  high nibble of the first three is the high nibble of the value, that of the last
  three is the low nibble of the value shifted left by 4; the enable bit (bit 2) is
  off, on, off within each group.
\<close>

theorem send_byte_six_writes:
  assumes "0 \<le> v" "v \<le> 255" "mode = LCD_COMMAND \<or> mode = LCD_CHARACTER"
  shows "fst (send_byte self v mode) = Inr () \<and>
         (let ws = transport_writes (snd (send_byte self v mode)) in
            length ws = 6 \<and>
            (\<forall>b \<in> set ws. bit b 3 \<and> bit b 0 = bit mode 0) \<and>
            map (\<lambda>b. b AND 0xf0) ws =
              [v AND 0xf0, v AND 0xf0, v AND 0xf0,
               push_bit 4 (v AND 0x0f), push_bit 4 (v AND 0x0f), push_bit 4 (v AND 0x0f)] \<and>
            map (\<lambda>b. bit b 2) ws = [False, True, False, False, True, False])"
proof -
  note m = mode_cases [OF assms(3)]
  have r: "fst (send_byte self v mode) = Inr ()"
    by (simp add: send_byte_events [OF assms(3)])
  show ?thesis
    unfolding Let_def send_byte_writes [OF assms(3)]
    using r
    by (simp add: frame_high_nibble [OF m] frame_bit3 frame_bit0 frame_bit2 [OF m]
        low_nibble_shifted [symmetric])
qed

theorem send_byte_six_writes_witness:
  "(0::int) \<le> 0x41 \<and> (0x41::int) \<le> 255 \<and>
   fst (send_byte example_display 0x41 LCD_CHARACTER) = Inr () \<and>
   (let ws = transport_writes (snd (send_byte example_display 0x41 LCD_CHARACTER)) in
      length ws = 6 \<and>
      list_all (\<lambda>b. bit b 3 \<and> bit b 0 = bit LCD_CHARACTER 0) ws \<and>
      map (\<lambda>b. b AND 0xf0) ws = [0x40, 0x40, 0x40, 0x10, 0x10, 0x10] \<and>
      map (\<lambda>b. bit b 2) ws = [False, True, False, False, True, False])"
  using send_byte_six_writes [of "0x41" LCD_CHARACTER example_display]
  by (simp add: Let_def list_all_iff)

text \<open>
  Claim C1 as stated asks for exactly two transport writes: sending the character
  \<open>A\<close> (0x41) writes six bytes.
\<close>

theorem send_byte_two_writes_counterexample:
  "transport_writes (snd (send_byte example_display 0x41 LCD_CHARACTER)) =
     [0x49, 0x4D, 0x49, 0x19, 0x1D, 0x19] \<and>
   length (transport_writes (snd (send_byte example_display 0x41 LCD_CHARACTER))) \<noteq> 2"
  by (simp add: send_byte_writes LCD_CHARACTER_def)

lemma mod_256_high: "(n mod 256) AND 0xf0 = (n::int) AND 0xf0"
proof -
  have "n mod 256 = take_bit 8 n" by (simp add: take_bit_eq_mod)
  also have "\<dots> = n AND mask 8" by (simp add: take_bit_eq_mask)
  finally show ?thesis by (simp add: and.assoc mask_eq_exp_minus_1)
qed

lemma mod_256_low: "push_bit 4 (n mod 256) AND 0xf0 = push_bit 4 (n::int) AND 0xf0"
proof -
  have "n mod 256 = take_bit 8 n" by (simp add: take_bit_eq_mod)
  also have "\<dots> = n AND mask 8" by (simp add: take_bit_eq_mask)
  finally show ?thesis by (simp add: push_bit_and and.assoc mask_eq_exp_minus_1)
qed

lemma send_byte_mod_256: "send_byte self (v mod 256) mode = send_byte self v mode"
  by (simp add: send_byte_def mod_256_high mod_256_low)

text \<open>
  Claim C2, as the code has it. For every integer outside 0..255 the transport
  write \<open>write_i2c_byte\<close> raises and writes nothing. \<open>send_byte\<close> has no range
  check of its own: for either mode it succeeds, issues six transport writes and
  does exactly what it does for the value modulo 256.
\<close>

theorem send_byte_masks_out_of_range:
  assumes "\<not> (0 \<le> v \<and> v \<le> 255)" "mode = LCD_COMMAND \<or> mode = LCD_CHARACTER"
  shows "write_i2c_byte self v = (Inl ByteOutOfBounds, []) \<and>
         fst (send_byte self v mode) = Inr () \<and>
         length (transport_writes (snd (send_byte self v mode))) = 6 \<and>
         send_byte self v mode = send_byte self (v mod 256) mode"
proof -
  have "write_i2c_byte self v = (Inl ByteOutOfBounds, [])"
    using assms(1) by (simp add: write_i2c_byte_def raise_def)
  moreover have "fst (send_byte self v mode) = Inr ()"
    by (simp add: send_byte_events [OF assms(2)])
  moreover have "length (transport_writes (snd (send_byte self v mode))) = 6"
    by (simp add: send_byte_writes [OF assms(2)])
  moreover have "send_byte self v mode = send_byte self (v mod 256) mode"
    by (simp only: send_byte_mod_256)
  ultimately show ?thesis by blast
qed

theorem send_byte_masks_out_of_range_witness:
  "\<not> (0 \<le> (256::int) \<and> (256::int) \<le> 255) \<and>
   write_i2c_byte example_display 256 = (Inl ByteOutOfBounds, []) \<and>
   fst (send_byte example_display 256 LCD_COMMAND) = Inr () \<and>
   length (transport_writes (snd (send_byte example_display 256 LCD_COMMAND))) = 6 \<and>
   send_byte example_display 256 LCD_COMMAND = send_byte example_display (256 mod 256) LCD_COMMAND"
proof -
  have h: "\<not> (0 \<le> (256::int) \<and> (256::int) \<le> 255)" by simp
  have m: "LCD_COMMAND = LCD_COMMAND \<or> LCD_COMMAND = LCD_CHARACTER" by simp
  from send_byte_masks_out_of_range [OF h m, of example_display] h show ?thesis by blast
qed

text \<open>
  Claim C2 as stated asks \<open>send_byte\<close> to fail on 256 with nothing written: it
  returns normally and writes the six bytes of the command 0x00.
\<close>

theorem send_byte_out_of_range_counterexample:
  "fst (send_byte example_display 256 LCD_COMMAND) = Inr () \<and>
   transport_writes (snd (send_byte example_display 256 LCD_COMMAND)) = [8, 12, 8, 8, 12, 8]"
  by (simp add: send_byte_events transport_writes_frame LCD_COMMAND_def)

subsection \<open>Cursor addressing\<close>

lemma exp_and_take_bit: "(2 ^ n :: int) AND take_bit n x = 0"
  by (rule bit_eqI) (auto simp: bit_simps)

lemma or_128:
  assumes "0 \<le> x" "x < 128"
  shows "(128::int) OR x = 128 + x"
proof -
  have "take_bit 7 x = x" using assms by (simp add: take_bit_int_eq_self)
  with exp_and_take_bit [of 7 x] have "(128::int) AND x = 0" by simp
  then show ?thesis by (simp add: disjunctive_add_eq_or)
qed

lemma set_ddram_or_add:
  assumes "0 \<le> col" "0 \<le> off" "off + col < 128"
  shows "(LCD_SET_DDRAM OR col) + off = LCD_SET_DDRAM OR (off + col)"
  using assms or_128 [of col] or_128 [of "off + col"] by (simp add: LCD_SET_DDRAM_def)

text \<open>
  Claim C3, as the code has it. For every row in 0..3 and every column in
  \<open>[0, cols)\<close>, \<open>set_cursor\<close> succeeds and sends as a command the byte
  \<open>(SET_DDRAM | col) + offset\<close>, the offset being 0x00, 0x40, 0x14, 0x54 for the rows
  0, 1, 2, 3; whenever \<open>offset + col\<close> is below 128 (always so when the display
  has at most 44 columns) this is the byte \<open>SET_DDRAM | (offset + col)\<close>. A row
  outside \<open>[0, 4)\<close>, or a column outside \<open>[0, cols)\<close>, raises and issues nothing.
\<close>

theorem set_cursor_ddram:
  "(0 \<le> row \<and> row < 4 \<and> 0 \<le> col \<and> col < LCD__cols self \<longrightarrow>
      set_cursor self row col =
        send_byte self ((LCD_SET_DDRAM OR col) + [0x00, 0x40, 0x14, 0x54] ! nat row) LCD_COMMAND \<and>
      fst (set_cursor self row col) = Inr () \<and>
      ([0x00, 0x40, 0x14, 0x54] ! nat row + col < 128 \<or> LCD__cols self \<le> 44 \<longrightarrow>
         set_cursor self row col =
           send_byte self (LCD_SET_DDRAM OR ([0x00, 0x40, 0x14, 0x54] ! nat row + col)) LCD_COMMAND)) \<and>
   (\<not> (0 \<le> row \<and> row < 4) \<longrightarrow>
      set_cursor self row col = (Inl (InvalidRowForCursor row), [])) \<and>
   (0 \<le> row \<and> row < 4 \<and> \<not> (0 \<le> col \<and> col < LCD__cols self) \<longrightarrow>
      set_cursor self row col = (Inl (InvalidColumnForCursor col), []))"
proof -
  have off: "0 \<le> [0x00, 0x40, 0x14, 0x54 :: int] ! nat row \<and>
      [0x00, 0x40, 0x14, 0x54 :: int] ! nat row \<le> 0x54" if "0 \<le> row" "row < 4"
  proof -
    from that have "nat row \<in> {0, 1, 2, 3}" by auto
    then show ?thesis by auto
  qed
  have small: "[0x00, 0x40, 0x14, 0x54 :: int] ! nat row + col < 128"
    if "0 \<le> row" "row < 4" "col < LCD__cols self" "LCD__cols self \<le> 44"
    using off [OF that(1,2)] that(3,4) by linarith
  have eq: "(LCD_SET_DDRAM OR col) + [0x00, 0x40, 0x14, 0x54 :: int] ! nat row =
      LCD_SET_DDRAM OR ([0x00, 0x40, 0x14, 0x54 :: int] ! nat row + col)"
    if "0 \<le> row" "row < 4" "0 \<le> col" "[0x00, 0x40, 0x14, 0x54 :: int] ! nat row + col < 128"
    using off [OF that(1,2)] that(3,4) by (intro set_ddram_or_add) simp_all
  show ?thesis
    using small eq
    by (auto simp: set_cursor_def Let_def raise_def send_byte_events)
qed


theorem set_cursor_ddram_witness:
  "(0::int) \<le> 1 \<and> (1::int) < 4 \<and> (0::int) \<le> 5 \<and> 5 < LCD__cols example_display \<and>
   [0x00, 0x40, 0x14, 0x54] ! nat 1 + 5 < (128::int) \<and>
   set_cursor example_display 1 5 = send_byte example_display (LCD_SET_DDRAM OR (0x40 + 5)) LCD_COMMAND \<and>
   fst (set_cursor example_display 1 5) = Inr () \<and>
   \<not> (0 \<le> (4::int) \<and> (4::int) < 4) \<and>
   set_cursor example_display 4 0 = (Inl (InvalidRowForCursor 4), []) \<and>
   \<not> (0 \<le> (20::int) \<and> 20 < LCD__cols example_display) \<and>
   set_cursor example_display 0 20 = (Inl (InvalidColumnForCursor 20), [])"
  using set_cursor_ddram [of 1 5 example_display] set_cursor_ddram [of 4 0 example_display]
    set_cursor_ddram [of 0 20 example_display]
  by (auto simp add: example_display_def LCD_SET_DDRAM_def)

text \<open>
  Claim C3 as stated fails on a display of 45 columns at row 3, column 44: the code
  sends \<open>(0x80 | 44) + 0x54 = 0x100\<close>, which \<open>send_byte\<close> masks to the command
  0x00, where the claim has \<open>0x80 | (0x54 + 44) = 0x80\<close>.
\<close>

theorem set_cursor_ddram_counterexample:
  "(0::int) \<le> 44 \<and> 44 < LCD__cols (example_display\<lparr>LCD__cols := 45\<rparr>) \<and>
   transport_writes (snd (set_cursor (example_display\<lparr>LCD__cols := 45\<rparr>) 3 44)) =
     [0x08, 0x0C, 0x08, 0x08, 0x0C, 0x08] \<and>
   transport_writes (snd (send_byte (example_display\<lparr>LCD__cols := 45\<rparr>)
       (LCD_SET_DDRAM OR (0x54 + 44)) LCD_COMMAND)) =
     [0x88, 0x8C, 0x88, 0x08, 0x0C, 0x08]"
  by (simp add: set_cursor_def Let_def send_byte_writes LCD_SET_DDRAM_def LCD_COMMAND_def)

subsection \<open>Display control flags\<close>

text \<open>
  Claim C7. \<open>blink_on(True)\<close> leaves both the blink and the cursor flag set, and
  resends the control byte without error. A \<open>blink_off\<close> after it clears the
  blink flag and leaves the cursor flag set; in general \<open>blink_off\<close> does not
  touch the cursor flag. The coupling goes one way only: \<open>cursor_on\<close> and
  \<open>cursor_off\<close> never touch the blink flag, so that \<open>cursor_off\<close> after
  \<open>blink_on(True)\<close> leaves blink set with the cursor flag cleared.
\<close>

theorem blink_forces_cursor:
  "LCD__cursor_on (fst (blink_on self True)) \<and>
   LCD__blink_on (fst (blink_on self True)) \<and>
   fst (snd (blink_on self True)) = Inr () \<and>
   LCD__cursor_on (fst (blink_off (fst (blink_on self True)))) \<and>
   \<not> LCD__blink_on (fst (blink_off (fst (blink_on self True)))) \<and>
   fst (snd (blink_off (fst (blink_on self True)))) = Inr () \<and>
   LCD__cursor_on (fst (blink_off self)) = LCD__cursor_on self \<and>
   LCD__blink_on (fst (cursor_on self v)) = LCD__blink_on self \<and>
   LCD__blink_on (fst (cursor_off (fst (blink_on self True)))) \<and>
   \<not> LCD__cursor_on (fst (cursor_off (fst (blink_on self True))))"
  by (simp add: blink_on_def blink_off_def cursor_on_def cursor_off_def Let_def
      update_display_control_def send_byte_events)

subsection \<open>Construction\<close>

lemma init_some:
  "init devices (Some a) rows cols =
     (Inr \<lparr>LCD__display_address = a, LCD__rows = rows, LCD__cols = cols,
            LCD__display_on = True, LCD__blink_on = False, LCD__cursor_on = False\<rparr>,
      concat (map (\<lambda>v. snd (send_byte
             \<lparr>LCD__display_address = a, LCD__rows = rows, LCD__cols = cols,
              LCD__display_on = True, LCD__blink_on = False, LCD__cursor_on = False\<rparr> v LCD_COMMAND))
        [0x03, 0x03, 0x03, 0x02, LCD_ENTRYMODESET OR LCD_ENTRYLEFT,
         LCD_DISPLAYCONTROL OR LCD_DISPLAYON, LCD_CLEARDISPLAY]))"
  unfolding init_def
  by (simp add: Let_def update_display_control_def send_byte_events ok_def)

lemma init_none:
  "init devices None rows cols =
     (if devices = [] then (Inl NoDeviceFound, []) else init devices (Some (devices ! 0)) rows cols)"
  by (simp add: init_def raise_def)

text \<open>
  Claim C6. Whenever an address is at hand (given, or the first device the scan
  finds), construction succeeds, returns the object with display on, blink off and
  cursor off, and has issued exactly this, in this order: the command 0x03 three
  times, then 0x02, then entry mode set with left-to-right increment (0x06), then
  the display control byte for display on, cursor off, blink off (0x0C), then clear
  display (0x01). The forty-two bytes on the bus are written out.
\<close>

theorem init_sequence:
  assumes "display_address = Some a \<or> (display_address = None \<and> devices \<noteq> [] \<and> devices ! 0 = a)"
  shows "\<exists>self.
           self = \<lparr>LCD__display_address = a, LCD__rows = rows, LCD__cols = cols,
                   LCD__display_on = True, LCD__blink_on = False, LCD__cursor_on = False\<rparr> \<and>
           init devices display_address rows cols =
             (Inr self,
              concat (map (\<lambda>v. snd (send_byte self v LCD_COMMAND))
                [0x03, 0x03, 0x03, 0x02, LCD_ENTRYMODESET OR LCD_ENTRYLEFT,
                 LCD_DISPLAYCONTROL OR LCD_DISPLAYON, LCD_CLEARDISPLAY])) \<and>
           transport_writes (snd (init devices display_address rows cols)) =
             [0x08, 0x0C, 0x08, 0x38, 0x3C, 0x38,
              0x08, 0x0C, 0x08, 0x38, 0x3C, 0x38,
              0x08, 0x0C, 0x08, 0x38, 0x3C, 0x38,
              0x08, 0x0C, 0x08, 0x28, 0x2C, 0x28,
              0x08, 0x0C, 0x08, 0x68, 0x6C, 0x68,
              0x08, 0x0C, 0x08, 0xC8, 0xCC, 0xC8,
              0x08, 0x0C, 0x08, 0x18, 0x1C, 0x18]"
proof -
  have eq: "init devices display_address rows cols = init devices (Some a) rows cols"
    using assms by (auto simp: init_none)
  have bytes: "transport_writes (snd (init devices (Some a) rows cols)) =
             [0x08, 0x0C, 0x08, 0x38, 0x3C, 0x38,
              0x08, 0x0C, 0x08, 0x38, 0x3C, 0x38,
              0x08, 0x0C, 0x08, 0x38, 0x3C, 0x38,
              0x08, 0x0C, 0x08, 0x28, 0x2C, 0x28,
              0x08, 0x0C, 0x08, 0x68, 0x6C, 0x68,
              0x08, 0x0C, 0x08, 0xC8, 0xCC, 0xC8,
              0x08, 0x0C, 0x08, 0x18, 0x1C, 0x18]"
    unfolding init_some
    by (simp add: send_byte_writes LCD_COMMAND_def LCD_ENTRYMODESET_def LCD_ENTRYLEFT_def
        LCD_DISPLAYCONTROL_def LCD_DISPLAYON_def LCD_CLEARDISPLAY_def)
  show ?thesis unfolding eq using init_some [of devices a rows cols] bytes by blast
qed

theorem init_sequence_witness:
  "\<exists>self.
     self = example_display \<and>
     init [0x27] None 4 20 =
       (Inr self,
        concat (map (\<lambda>v. snd (send_byte self v LCD_COMMAND))
          [0x03, 0x03, 0x03, 0x02, LCD_ENTRYMODESET OR LCD_ENTRYLEFT,
           LCD_DISPLAYCONTROL OR LCD_DISPLAYON, LCD_CLEARDISPLAY])) \<and>
     transport_writes (snd (init [0x27] None 4 20)) =
       [0x08, 0x0C, 0x08, 0x38, 0x3C, 0x38,
        0x08, 0x0C, 0x08, 0x38, 0x3C, 0x38,
        0x08, 0x0C, 0x08, 0x38, 0x3C, 0x38,
        0x08, 0x0C, 0x08, 0x28, 0x2C, 0x28,
        0x08, 0x0C, 0x08, 0x68, 0x6C, 0x68,
        0x08, 0x0C, 0x08, 0xC8, 0xCC, 0xC8,
        0x08, 0x0C, 0x08, 0x18, 0x1C, 0x18]"
proof -
  have h: "None = Some (0x27::int) \<or> ((None :: int option) = None \<and> [0x27::int] \<noteq> [] \<and> [0x27] ! 0 = (0x27::int))"
    by simp
  from init_sequence [OF h, of 4 20] show ?thesis
    unfolding example_display_def .
qed

subsection \<open>Writing strings\<close>

lemma write_character_single:
  "write_character self [c] = send_byte self (of_char c) LCD_CHARACTER"
  by (simp add: write_character_def)

lemma for_each_ok:
  assumes "\<And>x. fst (body x) = Inr ()"
  shows "for_each xs body = (Inr (), concat (map (\<lambda>x. snd (body x)) xs))"
proof (induction xs)
  case Nil
  show ?case by (simp add: ok_def)
next
  case (Cons x xs)
  obtain evs where b: "body x = (Inr (), evs)"
    using assms [of x] by (cases "body x") auto
  show ?case using Cons by (simp add: b)
qed

lemma write_string_events:
  "write_string self s =
     (Inr (), concat (map (\<lambda>c. snd (send_byte self (of_char c) LCD_CHARACTER)) s))"
  unfolding write_string_def
  by (subst for_each_ok) (simp_all add: write_character_single send_byte_events)

lemma write_string_ok [simp]: "fst (write_string self s) = Inr ()"
  by (simp add: write_string_events)

lemma bind_write_string:
  "bind_io (write_string self s) f =
     (case f () of (r, evs) \<Rightarrow> (r, snd (write_string self s) @ evs))"
  by (cases "write_string self s") (use write_string_ok [of self s] in \<open>auto simp: bind_io_def\<close>)

lemma set_cursor_cases:
  "set_cursor self row col =
     (if \<not> (0 \<le> row \<and> row < 4) then (Inl (InvalidRowForCursor row), [])
      else if \<not> (0 \<le> col \<and> col < LCD__cols self) then (Inl (InvalidColumnForCursor col), [])
      else (Inr (), snd (set_cursor self row col)))"
  by (simp add: set_cursor_def Let_def raise_def send_byte_events)

text \<open>
  The frames of \<open>send_byte\<close> in arithmetic: its masks and shifts select the
  two nibbles, and the flag bits add up without carry.
\<close>

lemma high_nibble_div: "(v::int) AND 0xf0 = 16 * (v div 16 mod 16)"
proof -
  have "(240::int) = push_bit 4 (mask 4)" by (simp add: mask_eq_exp_minus_1)
  then have "v AND 0xf0 = v AND push_bit 4 (mask 4)" by simp
  also have "\<dots> = push_bit 4 (take_bit 4 (drop_bit 4 v))"
    by (rule bit_eqI) (auto simp: bit_simps)
  also have "\<dots> = 16 * (v div 16 mod 16)"
    by (simp add: push_bit_eq_mult take_bit_eq_mod drop_bit_eq_div)
  finally show ?thesis .
qed

lemma low_nibble_mod: "push_bit 4 (v::int) AND 0xf0 = 16 * (v mod 16)"
proof -
  have "(240::int) = push_bit 4 (mask 4)" by (simp add: mask_eq_exp_minus_1)
  then have "push_bit 4 v AND 0xf0 = push_bit 4 v AND push_bit 4 (mask 4)" by simp
  also have "\<dots> = push_bit 4 (take_bit 4 v)"
    by (rule bit_eqI) (auto simp: bit_simps)
  also have "\<dots> = 16 * (v mod 16)"
    by (simp add: push_bit_eq_mult take_bit_eq_mod)
  finally show ?thesis .
qed

lemma nibble_frame_sum:
  assumes "m = 0 \<or> m = (1::int)" "0 \<le> k" "k < (16::int)"
  shows "(m OR 16 * k) OR 8 = 16 * k + 8 + m"
    and "(16 * k + 8 + m) OR 4 = 16 * k + 8 + 4 + m"
proof -
  from assms(2,3) have "k \<in> {0,1,2,3,4,5,6,7,8,9,10,11,12,13,14,15}" by simp presburger
  with assms(1) show "(m OR 16 * k) OR 8 = 16 * k + 8 + m"
    and "(16 * k + 8 + m) OR 4 = 16 * k + 8 + 4 + m" by auto
qed


lemma frames_bus_bytes:
  assumes "mode = LCD_COMMAND \<or> mode = LCD_CHARACTER"
  shows "transport_writes (frame_events a ((mode OR (v AND 0xf0)) OR 8) @
           frame_events a ((mode OR (push_bit 4 v AND 0xf0)) OR 8)) = spec_bus_bytes mode v"
proof -
  note m = mode_cases [OF assms]
  have hi: "0 \<le> v div 16 mod 16" "v div 16 mod 16 < 16" by simp_all
  have lo: "0 \<le> v mod 16" "v mod 16 < 16" by simp_all
  show ?thesis
    unfolding transport_writes_append transport_writes_frame frame_enable_clear [OF m]
    unfolding low_nibble_mod
    unfolding high_nibble_div nibble_frame_sum [OF m hi] nibble_frame_sum [OF m lo]
    by (simp add: spec_bus_bytes_def spec_nibble_frames_def)
qed

lemma bind_io_succeeds:
  assumes "fst m = Inr a"
  shows "fst (bind_io m f) = fst (f a)" and "snd (bind_io m f) = snd m @ snd (f a)"
  using assms by (cases m; simp)+

lemma row_offset_bounds:
  assumes "0 \<le> row" "row < 4"
  shows "0 \<le> [0x00, 0x40, 0x14, 0x54 :: int] ! nat row"
    and "[0x00, 0x40, 0x14, 0x54 :: int] ! nat row \<le> 0x54"
proof -
  from assms have "nat row \<in> {0, 1, 2, 3}" by auto
  then show "0 \<le> [0x00, 0x40, 0x14, 0x54 :: int] ! nat row"
    and "[0x00, 0x40, 0x14, 0x54 :: int] ! nat row \<le> 0x54" by auto
qed

lemma transport_writes_concat:
  "transport_writes (concat xss) = concat (map transport_writes xss)"
  by (induction xss) simp_all

text \<open>
  Claim C9, as the code has it. For every string and every row in \<open>[0, rows)\<close>,
  \<open>write_center\<close> calls \<open>set_cursor\<close> for that row and the column
  \<open>(cols - len(s)) // 2\<close> (floor division) and then writes the string. On a row
  below 4, with a string no longer than \<open>cols\<close>, it succeeds and what reaches
  the bus is the cursor-set command for that row and column (the DDRAM address
  being below 128, as it always is with at most 44 columns) followed by the
  characters of the string. When the string is
  longer than \<open>cols\<close> the column is negative and the \<open>set_cursor\<close> call raises
  with nothing issued. On a row from 4 on, which \<open>rows > 4\<close> allows,
  \<open>set_cursor\<close> raises for the row and nothing is issued.
\<close>

theorem write_center_column:
  assumes "0 \<le> row" "row < LCD__rows self"
  shows "write_center self s row =
           bind_io (set_cursor self row ((LCD__cols self - int (length s)) div 2))
             (\<lambda>_. write_string self s) \<and>
         (row < 4 \<and> int (length s) \<le> LCD__cols self \<and> 0 < LCD__cols self \<and>
          ([0x00, 0x40, 0x14, 0x54] ! nat row + (LCD__cols self - int (length s)) div 2 < 128 \<or>
           LCD__cols self \<le> 44) \<longrightarrow>
            fst (write_center self s row) = Inr () \<and>
            transport_writes (snd (write_center self s row)) =
              spec_cursor_bytes row ((LCD__cols self - int (length s)) div 2) @
              spec_string_bytes s) \<and>
         (LCD__cols self < int (length s) \<longrightarrow>
            (LCD__cols self - int (length s)) div 2 < 0 \<and>
            write_center self s row =
              (Inl (if row < 4 then InvalidColumnForCursor ((LCD__cols self - int (length s)) div 2)
                    else InvalidRowForCursor row), [])) \<and>
         (4 \<le> row \<longrightarrow> write_center self s row = (Inl (InvalidRowForCursor row), []))"
proof -
  have frame: "bind_io (write_i2c_byte self f) (\<lambda>_. toggle_enable self f) =
      (Inr (), frame_events (LCD__display_address self) f)" if "0 \<le> f" "f < 256" for f
    using that frame_enable_upper [OF that]
    by (simp add: write_i2c_byte_def toggle_enable_def emit_def frame_events_def LCD_ENABLE_BIT_def)
  have sb: "fst (send_byte self v mode) = Inr () \<and>
      transport_writes (snd (send_byte self v mode)) = spec_bus_bytes mode v"
    if "mode = LCD_COMMAND \<or> mode = LCD_CHARACTER" for v mode
  proof -
    have m: "0 \<le> mode" "mode < 256"
      using that by (auto simp: LCD_COMMAND_def LCD_CHARACTER_def)
    have "send_byte self v mode =
        (Inr (), frame_events (LCD__display_address self) ((mode OR (v AND 0xf0)) OR 8) @
                 frame_events (LCD__display_address self) ((mode OR (push_bit 4 v AND 0xf0)) OR 8))"
      using frame [OF frame_nonneg [OF m(1)] frame_upper [OF m]]
      by (simp add: send_byte_def Let_def ok_def)
    then show ?thesis using frames_bus_bytes [OF that] by simp
  qed
  have ws: "fst (write_string self t) = Inr () \<and>
      transport_writes (snd (write_string self t)) = spec_string_bytes t" for t
  proof -
    have "write_string self t =
        (Inr (), concat (map (\<lambda>c. snd (send_byte self (of_char c) LCD_CHARACTER)) t))"
      unfolding write_string_def using sb [of LCD_CHARACTER]
      by (subst for_each_ok) (simp_all add: write_character_def)
    then show ?thesis
      using sb [of LCD_CHARACTER]
      by (simp add: transport_writes_concat spec_string_bytes_def comp_def)
  qed
  have sc: "fst (set_cursor self r c) = Inr () \<and>
      transport_writes (snd (set_cursor self r c)) = spec_cursor_bytes r c"
    if "0 \<le> r" "r < 4" "0 \<le> c" "c < LCD__cols self"
      "[0x00, 0x40, 0x14, 0x54] ! nat r + c < 128" for r c
  proof -
    have "(LCD_SET_DDRAM OR c) + [0x00, 0x40, 0x14, 0x54] ! nat r =
        LCD_SET_DDRAM OR ([0x00, 0x40, 0x14, 0x54] ! nat r + c)"
      using that(3,5) row_offset_bounds(1) [OF that(1,2)] by (intro set_ddram_or_add)
    then have "set_cursor self r c =
        send_byte self (LCD_SET_DDRAM OR ([0x00, 0x40, 0x14, 0x54] ! nat r + c)) LCD_COMMAND"
      using that(1-4) by (simp add: set_cursor_def Let_def)
    then show ?thesis using sb [of LCD_COMMAND] by (simp add: spec_cursor_bytes_def)
  qed
  let ?c = "(LCD__cols self - int (length s)) div 2"
  have seq: "write_center self s row = bind_io (set_cursor self row ?c) (\<lambda>_. write_string self s)"
    using assms by (simp add: write_center_def Let_def)
  have neg: "?c < 0" if "LCD__cols self < int (length s)"
    using that by simp
  have fail: "write_center self s row =
      (Inl (if row < 4 then InvalidColumnForCursor ?c else InvalidRowForCursor row), [])"
    if "LCD__cols self < int (length s)"
    unfolding seq using neg [OF that] assms(1)
    by (simp add: set_cursor_def Let_def raise_def)
  have high: "write_center self s row = (Inl (InvalidRowForCursor row), [])" if "4 \<le> row"
    unfolding seq using that by (simp add: set_cursor_def Let_def raise_def)
  have good: "fst (write_center self s row) = Inr () \<and>
      transport_writes (snd (write_center self s row)) =
        spec_cursor_bytes row ?c @ spec_string_bytes s"
    if "row < 4" "int (length s) \<le> LCD__cols self" "0 < LCD__cols self"
      "[0x00, 0x40, 0x14, 0x54] ! nat row + ?c < 128 \<or> LCD__cols self \<le> 44"
  proof -
    have c: "0 \<le> ?c" "?c < LCD__cols self" using that(2,3) by simp_all
    have a: "[0x00, 0x40, 0x14, 0x54] ! nat row + ?c < 128"
      using that(4) c(2) row_offset_bounds(2) [OF assms(1) that(1)] by linarith
    from sc [OF assms(1) that(1) c a] ws [of s] show ?thesis
      unfolding seq by (simp add: bind_io_succeeds)
  qed
  from seq neg fail high good show ?thesis by blast
qed

theorem write_center_column_witness:
  "(0::int) \<le> 0 \<and> 0 < LCD__rows example_display \<and>
   (LCD__cols example_display - int (length ''2'')) div 2 = 9 \<and>
   fst (write_center example_display ''2'' 0) = Inr () \<and>
   transport_writes (snd (write_center example_display ''2'' 0)) =
     spec_cursor_bytes 0 9 @ spec_string_bytes ''2'' \<and>
   transport_writes (snd (write_center example_display ''2'' 0)) =
     [0x88, 0x8C, 0x88, 0x98, 0x9C, 0x98, 0x39, 0x3D, 0x39, 0x29, 0x2D, 0x29] \<and>
   LCD__cols example_display < int (length ''012345678901234567890'') \<and>
   write_center example_display ''012345678901234567890'' 0 =
     (Inl (InvalidColumnForCursor (- 1)), [])"
proof -
  have direct: "transport_writes (snd (write_center example_display ''2'' 0)) =
     [0x88, 0x8C, 0x88, 0x98, 0x9C, 0x98, 0x39, 0x3D, 0x39, 0x29, 0x2D, 0x29]"
    by (simp add: write_center_def Let_def set_cursor_def write_string_def write_character_def
        send_byte_def toggle_enable_def write_i2c_byte_def emit_def ok_def example_display_def
        LCD_SET_DDRAM_def LCD_COMMAND_def LCD_CHARACTER_def LCD_ENABLE_BIT_def)
  from write_center_column [of 0 example_display "''2''"]
    write_center_column [of 0 example_display "''012345678901234567890''"] direct
  show ?thesis
    by (auto simp: example_display_def)
qed

text \<open>
  Claim C9 as stated has the cursor set on every row in \<open>[0, rows)\<close>: on a
  display of five rows, \<open>write_center\<close> on row 4 raises from \<open>set_cursor\<close> and
  issues nothing.
\<close>

theorem write_center_fifth_row_counterexample:
  "(0::int) \<le> 4 \<and> 4 < LCD__rows (example_display\<lparr>LCD__rows := 5\<rparr>) \<and>
   write_center (example_display\<lparr>LCD__rows := 5\<rparr>) ''2'' 4 = (Inl (InvalidRowForCursor 4), [])"
  by (simp add: example_display_def write_center_def Let_def set_cursor_def raise_def)

subsection \<open>Word wrap\<close>

declare write_inner_loop.simps [simp del]
declare write_outer_loop.simps [simp del]

lemma inner_loop_pack:
  "words_idx \<le> length words \<Longrightarrow>
   spec_pack cols current_line (drop words_idx words) =
     (snd (write_inner_loop cols words words_idx current_line),
      drop (fst (write_inner_loop cols words words_idx current_line)) words) \<and>
   words_idx \<le> fst (write_inner_loop cols words words_idx current_line) \<and>
   fst (write_inner_loop cols words words_idx current_line) \<le> length words"
proof (induction cols words words_idx current_line rule: write_inner_loop.induct)
  case (1 cols words words_idx current_line)
  show ?case
  proof (cases "words_idx < length words \<and>
         int (length current_line) + int (length (words ! words_idx)) \<le> cols")
    case True
    then have d: "drop words_idx words = words ! words_idx # drop (Suc words_idx) words"
      by (simp add: Cons_nth_drop_Suc)
    from True have l: "words_idx + 1 \<le> length words" by simp
    from "1.IH" [OF True l] True d show ?thesis
      by (subst (1 2 3 4) write_inner_loop.simps) simp
  next
    case False
    show ?thesis
    proof (cases "words_idx < length words")
      case True
      then have d: "drop words_idx words = words ! words_idx # drop (Suc words_idx) words"
        by (simp add: Cons_nth_drop_Suc)
      from False True d show ?thesis
        by (subst (1 2 3 4) write_inner_loop.simps) simp
    next
      case F: False
      with "1.prems" show ?thesis
        by (subst (1 2 3 4) write_inner_loop.simps) simp
    qed
  qed
qed

lemma outer_done:
  "\<not> row < LCD__rows self \<Longrightarrow> write_outer_loop self words words_idx row = ok row"
  by (subst write_outer_loop.simps) simp

lemma outer_step:
  "row < LCD__rows self \<Longrightarrow>
   write_outer_loop self words words_idx row =
     (case write_inner_loop (LCD__cols self) words words_idx [] of
        (i, current_line) \<Rightarrow>
          bind_io (set_cursor self row 0) (\<lambda>_.
            if current_line \<noteq> [] then
              bind_io (write_string self (str_rstrip current_line)) (\<lambda>_.
                write_outer_loop self words i (row + 1))
            else if i < length words then
              bind_io (write_string self (slice_to (LCD__cols self) (words ! i))) (\<lambda>_.
                write_outer_loop self (words[i := slice_from (LCD__cols self) (words ! i)]) i (row + 1))
            else ok row))"
  by (subst write_outer_loop.simps) (simp split: prod.splits)


lemma write_outer_loop_plan:
  "words_idx \<le> length words \<Longrightarrow>
   write_outer_loop self words words_idx row =
     (case spec_render_plan (LCD__cols self) (nat (LCD__rows self - row)) (drop words_idx words) of
        (ls, fin) \<Rightarrow>
          bind_io (spec_write_lines self row ls) (\<lambda>_. spec_finish self (row + int (length ls)) fin))"
proof (induction "nat (LCD__rows self - row)" arbitrary: words words_idx row)
  case 0
  then have "\<not> row < LCD__rows self" by simp
  with 0 show ?case by (simp add: outer_done spec_finish_def)
next
  case (Suc n)
  then have lt: "row < LCD__rows self" and n: "n = nat (LCD__rows self - (row + 1))"
    by simp_all
  have Sn: "nat (LCD__rows self - row) = Suc n" using Suc.hyps(2) by simp
  have len: "row + (1 + int k) = row + 1 + int k" for k by simp
  obtain i cur where il: "write_inner_loop (LCD__cols self) words words_idx [] = (i, cur)"
    by (cases "write_inner_loop (LCD__cols self) words words_idx []")
  from inner_loop_pack [OF Suc.prems, of "LCD__cols self" "[]"] il
  have gp: "spec_pack (LCD__cols self) [] (drop words_idx words) = (cur, drop i words)"
    and i: "i \<le> length words"
    by simp_all
  show ?case
  proof (cases "cur \<noteq> []")
    case True
    obtain ls fin where rp: "spec_render_plan (LCD__cols self) n (drop i words) = (ls, fin)"
      by (cases "spec_render_plan (LCD__cols self) n (drop i words)")
    from Suc.hyps(1) [OF n i] rp
    have ih: "write_outer_loop self words i (row + 1) =
        bind_io (spec_write_lines self (row + 1) ls)
          (\<lambda>_. spec_finish self (row + 1 + int (length ls)) fin)"
      by (simp add: n [symmetric])
    show ?thesis
      unfolding outer_step [OF lt] il Sn
      using True by (simp add: gp rp ih bind_io_assoc len)
  next
    case False
    then have cur: "cur = []" by simp
    show ?thesis
    proof (cases "i < length words")
      case True
      let ?w = "words ! i"
      let ?words = "words[i := slice_from (LCD__cols self) ?w]"
      have d: "drop i words = ?w # drop (Suc i) words"
        using True by (simp add: Cons_nth_drop_Suc)
      have d': "drop i ?words = slice_from (LCD__cols self) ?w # drop (Suc i) words"
        using True by (simp add: Cons_nth_drop_Suc [symmetric])
      obtain ls fin where rp: "spec_render_plan (LCD__cols self) n
          (slice_from (LCD__cols self) ?w # drop (Suc i) words) = (ls, fin)"
        by (cases "spec_render_plan (LCD__cols self) n
          (slice_from (LCD__cols self) ?w # drop (Suc i) words)")
      have i': "i \<le> length ?words" using i by simp
      from Suc.hyps(1) [OF n i'] rp d'
      have ih: "write_outer_loop self ?words i (row + 1) =
          bind_io (spec_write_lines self (row + 1) ls)
            (\<lambda>_. spec_finish self (row + 1 + int (length ls)) fin)"
        by (simp add: n [symmetric])
      show ?thesis
        unfolding outer_step [OF lt] il Sn
        using True cur by (simp add: gp d rp ih bind_io_assoc len)
    next
      case F: False
      with i have "drop i words = []" by simp
      then show ?thesis
        unfolding outer_step [OF lt] il Sn
        using F cur by (simp add: gp spec_finish_def)
    qed
  qed
qed


lemma spec_render_plan_length:
  "spec_render_plan cols n ws = (ls, fin) \<Longrightarrow> (if fin then length ls < n else length ls = n)"
proof (induction n arbitrary: ws ls fin)
  case 0
  then show ?case by simp
next
  case (Suc n)
  obtain line rest where gp: "spec_pack cols [] ws = (line, rest)"
    by (cases "spec_pack cols [] ws")
  show ?case
  proof (cases "line \<noteq> []")
    case True
    obtain ls' fin' where rp: "spec_render_plan cols n rest = (ls', fin')"
      by (cases "spec_render_plan cols n rest")
    from Suc.IH [OF rp] Suc.prems True gp rp show ?thesis
      by (auto split: if_splits)
  next
    case False
    show ?thesis
    proof (cases rest)
      case Nil
      with Suc.prems False gp show ?thesis by auto
    next
      case (Cons w rest')
      obtain ls' fin' where rp: "spec_render_plan cols n (slice_from cols w # rest') = (ls', fin')"
        by (cases "spec_render_plan cols n (slice_from cols w # rest')")
      from Suc.IH [OF rp] Suc.prems False gp rp Cons show ?thesis
        by (auto split: if_splits)
    qed
  qed
qed

lemma set_cursor_ok:
  "0 \<le> row \<Longrightarrow> row < 4 \<Longrightarrow> 0 < LCD__cols self \<Longrightarrow>
   set_cursor self row 0 = (Inr (), snd (set_cursor self row 0))"
  by (subst set_cursor_cases) simp








lemma bind_set_cursor_ok:
  assumes "0 \<le> row" "row < 4" "0 < LCD__cols self"
  shows "bind_io (set_cursor self row 0) f =
           (case f () of (r, evs) \<Rightarrow> (r, snd (set_cursor self row 0) @ evs))"
  by (subst set_cursor_ok [OF assms]) (simp split: prod.splits)

lemma example_geometry:
  "LCD__rows example_display = 4" "LCD__cols example_display = 20"
  by (simp_all add: example_display_def)

lemma spec_write_lines_bus_bytes:
  assumes sc: "\<And>r. 0 \<le> r \<Longrightarrow> r < 4 \<Longrightarrow>
      fst (set_cursor self r 0) = Inr () \<and>
      transport_writes (snd (set_cursor self r 0)) = spec_cursor_bytes r 0"
    and ws: "\<And>t. fst (write_string self t) = Inr () \<and>
      transport_writes (snd (write_string self t)) = spec_string_bytes t"
  shows "0 \<le> row \<Longrightarrow> row + int (length ls) \<le> 4 \<Longrightarrow>
    fst (spec_write_lines self row ls) = Inr () \<and>
    transport_writes (snd (spec_write_lines self row ls)) = spec_lines_bytes row ls"
proof (induction ls arbitrary: row)
  case Nil
  show ?case by (simp add: ok_def)
next
  case (Cons l ls)
  have r: "0 \<le> row" "row < 4" using Cons.prems by simp_all
  have ih: "fst (spec_write_lines self (row + 1) ls) = Inr () \<and>
      transport_writes (snd (spec_write_lines self (row + 1) ls)) = spec_lines_bytes (row + 1) ls"
    using Cons.prems by (intro Cons.IH) simp_all
  from sc [OF r] ws [of l] ih show ?case
    by (simp add: bind_io_succeeds)
qed

text \<open>
  Claim C5, as the code has it. In the loop of \<open>write\<close>, on a row below
  \<open>rows\<close>, when the next word is longer than \<open>cols\<close>, the inner loop packs
  nothing: the line is empty and words remain. On a row that \<open>set_cursor\<close>
  addresses (0 to 3, with at least one column) what reaches the bus is the
  cursor-set command for \<open>(row, 0)\<close>, then the first \<open>cols\<close> characters of the
  word, then whatever the loop issues from the next row on with the remainder of
  the word in its place, the first word the next packing considers; the result is
  that of the rest of the loop, and the remainder is shorter than the word. On any
  other row \<open>set_cursor\<close> raises and nothing is written.
\<close>

theorem write_splits_long_word:
  assumes "row < LCD__rows self" "words_idx < length words"
    "LCD__cols self < int (length (words ! words_idx))"
  shows "write_inner_loop (LCD__cols self) words words_idx [] = (words_idx, []) \<and>
         (0 \<le> row \<and> row < 4 \<and> 0 < LCD__cols self \<longrightarrow>
            fst (write_outer_loop self words words_idx row) =
              fst (write_outer_loop self
                     (words[words_idx := drop (nat (LCD__cols self)) (words ! words_idx)])
                     words_idx (row + 1)) \<and>
            transport_writes (snd (write_outer_loop self words words_idx row)) =
              spec_cursor_bytes row 0 @
              spec_string_bytes (take (nat (LCD__cols self)) (words ! words_idx)) @
              transport_writes (snd (write_outer_loop self
                     (words[words_idx := drop (nat (LCD__cols self)) (words ! words_idx)])
                     words_idx (row + 1))) \<and>
            int (length (take (nat (LCD__cols self)) (words ! words_idx))) = LCD__cols self \<and>
            (words[words_idx := drop (nat (LCD__cols self)) (words ! words_idx)]) ! words_idx =
              drop (nat (LCD__cols self)) (words ! words_idx) \<and>
            length (drop (nat (LCD__cols self)) (words ! words_idx)) <
              length (words ! words_idx)) \<and>
         (\<not> (0 \<le> row \<and> row < 4) \<longrightarrow>
            write_outer_loop self words words_idx row = (Inl (InvalidRowForCursor row), []))"
proof -
  have frame: "bind_io (write_i2c_byte self f) (\<lambda>_. toggle_enable self f) =
      (Inr (), frame_events (LCD__display_address self) f)" if "0 \<le> f" "f < 256" for f
    using that frame_enable_upper [OF that]
    by (simp add: write_i2c_byte_def toggle_enable_def emit_def frame_events_def LCD_ENABLE_BIT_def)
  have sb: "fst (send_byte self v mode) = Inr () \<and>
      transport_writes (snd (send_byte self v mode)) = spec_bus_bytes mode v"
    if "mode = LCD_COMMAND \<or> mode = LCD_CHARACTER" for v mode
  proof -
    have m: "0 \<le> mode" "mode < 256"
      using that by (auto simp: LCD_COMMAND_def LCD_CHARACTER_def)
    have "send_byte self v mode =
        (Inr (), frame_events (LCD__display_address self) ((mode OR (v AND 0xf0)) OR 8) @
                 frame_events (LCD__display_address self) ((mode OR (push_bit 4 v AND 0xf0)) OR 8))"
      using frame [OF frame_nonneg [OF m(1)] frame_upper [OF m]]
      by (simp add: send_byte_def Let_def ok_def)
    then show ?thesis using frames_bus_bytes [OF that] by simp
  qed
  have ws: "fst (write_string self t) = Inr () \<and>
      transport_writes (snd (write_string self t)) = spec_string_bytes t" for t
  proof -
    have "write_string self t =
        (Inr (), concat (map (\<lambda>c. snd (send_byte self (of_char c) LCD_CHARACTER)) t))"
      unfolding write_string_def using sb [of LCD_CHARACTER]
      by (subst for_each_ok) (simp_all add: write_character_def)
    then show ?thesis
      using sb [of LCD_CHARACTER]
      by (simp add: transport_writes_concat spec_string_bytes_def comp_def)
  qed
  have sc: "fst (set_cursor self r c) = Inr () \<and>
      transport_writes (snd (set_cursor self r c)) = spec_cursor_bytes r c"
    if "0 \<le> r" "r < 4" "0 \<le> c" "c < LCD__cols self"
      "[0x00, 0x40, 0x14, 0x54] ! nat r + c < 128" for r c
  proof -
    have "(LCD_SET_DDRAM OR c) + [0x00, 0x40, 0x14, 0x54] ! nat r =
        LCD_SET_DDRAM OR ([0x00, 0x40, 0x14, 0x54] ! nat r + c)"
      using that(3,5) row_offset_bounds(1) [OF that(1,2)] by (intro set_ddram_or_add)
    then have "set_cursor self r c =
        send_byte self (LCD_SET_DDRAM OR ([0x00, 0x40, 0x14, 0x54] ! nat r + c)) LCD_COMMAND"
      using that(1-4) by (simp add: set_cursor_def Let_def)
    then show ?thesis using sb [of LCD_COMMAND] by (simp add: spec_cursor_bytes_def)
  qed
  have sc0: "fst (set_cursor self r 0) = Inr () \<and>
      transport_writes (snd (set_cursor self r 0)) = spec_cursor_bytes r 0"
    if "0 \<le> r" "r < 4" "0 < LCD__cols self" for r
    using sc [OF that(1,2) _ that(3)] row_offset_bounds(2) [OF that(1,2)] by simp
  let ?w = "words ! words_idx"
  let ?n = "nat (LCD__cols self)"
  let ?next = "write_outer_loop self (words[words_idx := drop ?n ?w]) words_idx (row + 1)"
  have il: "write_inner_loop (LCD__cols self) words words_idx [] = (words_idx, [])"
    using assms(2,3) by (subst write_inner_loop.simps) simp
  have step: "write_outer_loop self words words_idx row =
           bind_io (set_cursor self row 0) (\<lambda>_.
           bind_io (write_string self (slice_to (LCD__cols self) ?w)) (\<lambda>_.
           write_outer_loop self (words[words_idx := slice_from (LCD__cols self) ?w])
             words_idx (row + 1)))"
    using assms(1,2) by (subst write_outer_loop.simps) (simp add: il)
  have good: "fst (write_outer_loop self words words_idx row) = fst ?next \<and>
      transport_writes (snd (write_outer_loop self words words_idx row)) =
        spec_cursor_bytes row 0 @ spec_string_bytes (take ?n ?w) @ transport_writes (snd ?next)"
    if "0 \<le> row" "row < 4" "0 < LCD__cols self"
  proof -
    have sl: "slice_to (LCD__cols self) ?w = take ?n ?w"
      "slice_from (LCD__cols self) ?w = drop ?n ?w"
      using that(3) by (simp_all add: slice_to_def slice_from_def)
    from sc0 [OF that] ws [of "take ?n ?w"] show ?thesis
      unfolding step sl by (simp add: bind_io_succeeds)
  qed
  have len: "int (length (take ?n ?w)) = LCD__cols self \<and>
      (words[words_idx := drop ?n ?w]) ! words_idx = drop ?n ?w \<and>
      length (drop ?n ?w) < length ?w"
    if "0 < LCD__cols self"
    using that assms(2,3) by auto
  have bad: "write_outer_loop self words words_idx row = (Inl (InvalidRowForCursor row), [])"
    if "\<not> (0 \<le> row \<and> row < 4)"
    unfolding step using that by (simp add: set_cursor_def Let_def raise_def)
  from il good len bad show ?thesis by blast
qed

theorem write_splits_long_word_witness:
  "(0::int) < LCD__rows example_display \<and>
   (0::nat) < length [''abcdefghijklmnopqrstuvwxyz0123''] \<and>
   LCD__cols example_display < int (length ([''abcdefghijklmnopqrstuvwxyz0123''] ! 0)) \<and>
   write_inner_loop (LCD__cols example_display) [''abcdefghijklmnopqrstuvwxyz0123''] 0 [] = (0, []) \<and>
   transport_writes (snd (write_outer_loop example_display [''abcdefghijklmnopqrstuvwxyz0123''] 0 0)) =
     spec_cursor_bytes 0 0 @ spec_string_bytes ''abcdefghijklmnopqrst'' @
     transport_writes (snd (write_outer_loop example_display [''uvwxyz0123''] 0 1)) \<and>
   fst (write_text example_display ''abcdefghijklmnopqrstuvwxyz0123'' 0) = Inr 2 \<and>
   transport_writes (snd (write_text example_display ''abcdefghijklmnopqrstuvwxyz0123'' 0)) =
     spec_cursor_bytes 0 0 @ spec_string_bytes ''abcdefghijklmnopqrst'' @
     spec_cursor_bytes 1 0 @ spec_string_bytes ''uvwxyz0123'' @ spec_cursor_bytes 2 0 \<and>
   spec_cursor_bytes 0 0 = [0x88, 0x8C, 0x88, 0x08, 0x0C, 0x08] \<and>
   spec_string_bytes ''at'' = [0x69, 0x6D, 0x69, 0x19, 0x1D, 0x19, 0x79, 0x7D, 0x79, 0x49, 0x4D, 0x49] \<and>
   spec_cursor_bytes 1 0 = [0xC8, 0xCC, 0xC8, 0x08, 0x0C, 0x08] \<and>
   spec_cursor_bytes 2 0 = [0x98, 0x9C, 0x98, 0x48, 0x4C, 0x48]"
proof -
  have h: "(0::int) < LCD__rows example_display"
    "(0::nat) < length [''abcdefghijklmnopqrstuvwxyz0123'']"
    "LCD__cols example_display < int (length ([''abcdefghijklmnopqrstuvwxyz0123''] ! 0))"
    by (simp_all add: example_geometry)
  note t = write_splits_long_word [OF h]
  from t have a: "write_inner_loop (LCD__cols example_display) [''abcdefghijklmnopqrstuvwxyz0123''] 0 [] = (0, [])"
    by blast
  from t have b: "transport_writes (snd (write_outer_loop example_display [''abcdefghijklmnopqrstuvwxyz0123''] 0 0)) =
     spec_cursor_bytes 0 0 @ spec_string_bytes ''abcdefghijklmnopqrst'' @
     transport_writes (snd (write_outer_loop example_display [''uvwxyz0123''] 0 1))"
    and b': "fst (write_outer_loop example_display [''abcdefghijklmnopqrstuvwxyz0123''] 0 0) =
      fst (write_outer_loop example_display [''uvwxyz0123''] 0 1)"
    by (simp_all add: example_geometry)
  have e: "spec_cursor_bytes 0 0 = [0x88, 0x8C, 0x88, 0x08, 0x0C, 0x08]"
    "spec_string_bytes ''at'' = [0x69, 0x6D, 0x69, 0x19, 0x1D, 0x19, 0x79, 0x7D, 0x79, 0x49, 0x4D, 0x49]"
    "spec_cursor_bytes 1 0 = [0xC8, 0xCC, 0xC8, 0x08, 0x0C, 0x08]"
    "spec_cursor_bytes 2 0 = [0x98, 0x9C, 0x98, 0x48, 0x4C, 0x48]"
    by (simp_all add: spec_cursor_bytes_def spec_string_bytes_def spec_bus_bytes_def
        spec_nibble_frames_def LCD_COMMAND_def LCD_CHARACTER_def LCD_SET_DDRAM_def)
  have rest: "write_outer_loop example_display [''uvwxyz0123''] 0 1 =
     bind_io (set_cursor example_display 1 0) (\<lambda>_.
     bind_io (write_string example_display ''uvwxyz0123'') (\<lambda>_.
     bind_io (set_cursor example_display 2 0) (\<lambda>_. ok 2)))"
    apply (subst write_outer_loop.simps)
    apply (subst write_outer_loop.simps)
    apply (simp add: write_inner_loop.simps example_geometry str_rstrip_def isspace_def)
    done
  have c': "fst (write_outer_loop example_display [''uvwxyz0123''] 0 1) = Inr 2"
    "transport_writes (snd (write_outer_loop example_display [''uvwxyz0123''] 0 1)) =
       spec_cursor_bytes 1 0 @ spec_string_bytes ''uvwxyz0123'' @ spec_cursor_bytes 2 0"
    unfolding rest e
    by (simp_all add: set_cursor_def Let_def write_string_def write_character_def
        send_byte_def toggle_enable_def write_i2c_byte_def emit_def ok_def example_display_def
        LCD_SET_DDRAM_def LCD_COMMAND_def LCD_CHARACTER_def LCD_ENABLE_BIT_def
        spec_string_bytes_def spec_bus_bytes_def spec_nibble_frames_def)
  have s: "str_split ''abcdefghijklmnopqrstuvwxyz0123'' = [''abcdefghijklmnopqrstuvwxyz0123'']"
    by (simp add: str_split_def isspace_def)
  have d: "fst (write_text example_display ''abcdefghijklmnopqrstuvwxyz0123'' 0) = Inr 2"
    "transport_writes (snd (write_text example_display ''abcdefghijklmnopqrstuvwxyz0123'' 0)) =
     spec_cursor_bytes 0 0 @ spec_string_bytes ''abcdefghijklmnopqrst'' @
     spec_cursor_bytes 1 0 @ spec_string_bytes ''uvwxyz0123'' @ spec_cursor_bytes 2 0"
    unfolding write_text_def s using b b' c' by simp_all
  from h a b d e show ?thesis by blast
qed

text \<open>
  Claim C5 as stated has the prefix written whenever no word fits and words
  remain: on a display of five rows, a word of 30 characters written from row 4
  does not fit, and \<open>write\<close> raises from \<open>set_cursor\<close> with nothing issued.
\<close>

theorem write_long_word_fifth_row_counterexample:
  "(4::int) < LCD__rows (example_display\<lparr>LCD__rows := 5\<rparr>) \<and>
   str_split ''abcdefghijklmnopqrstuvwxyz0123'' = [''abcdefghijklmnopqrstuvwxyz0123''] \<and>
   write_inner_loop (LCD__cols (example_display\<lparr>LCD__rows := 5\<rparr>))
     [''abcdefghijklmnopqrstuvwxyz0123''] 0 [] = (0, []) \<and>
   write_text (example_display\<lparr>LCD__rows := 5\<rparr>) ''abcdefghijklmnopqrstuvwxyz0123'' 4 =
     (Inl (InvalidRowForCursor 4), [])"
proof -
  have s: "str_split ''abcdefghijklmnopqrstuvwxyz0123'' = [''abcdefghijklmnopqrstuvwxyz0123'']"
    by (simp add: str_split_def isspace_def)
  have il: "write_inner_loop (LCD__cols (example_display\<lparr>LCD__rows := 5\<rparr>))
      [''abcdefghijklmnopqrstuvwxyz0123''] 0 [] = (0, [])"
    by (subst write_inner_loop.simps) (simp add: example_display_def)
  have "write_outer_loop (example_display\<lparr>LCD__rows := 5\<rparr>)
      [''abcdefghijklmnopqrstuvwxyz0123''] 0 4 = (Inl (InvalidRowForCursor 4), [])"
    by (subst write_outer_loop.simps) (simp add: il set_cursor_def Let_def raise_def)
  with s il show ?thesis by (simp add: write_text_def example_display_def)
qed

text \<open>
  Claim C10, as the code has it. Whenever the render plan of \<open>write\<close> consumes
  all the words with rows left, from a start row that is not negative and up to a
  row that \<open>set_cursor\<close> addresses (below 4, with at least one column),
  \<open>write\<close> returns the first row not written to, which is below \<open>rows\<close>, and
  what reaches the bus is the lines of the plan followed by one more cursor-set
  command, for column 0 of the returned row, with no character after it. For an
  empty or whitespace-only text and a start row in \<open>[0, rows)\<close> below 4 it
  returns the start row and the bus sees exactly the six bytes of that one
  command. From a start row in \<open>[4, rows)\<close> such a text makes \<open>set_cursor\<close>
  raise and nothing is issued.
\<close>

theorem write_text_extra_cursor_set:
  "(case spec_render_plan (LCD__cols self) (nat (LCD__rows self - start_row)) (str_split string) of
      (ls, fin) \<Rightarrow>
        fin \<and> 0 \<le> start_row \<and> start_row + int (length ls) < 4 \<and> 0 < LCD__cols self \<longrightarrow>
          start_row + int (length ls) < LCD__rows self \<and>
          fst (write_text self string start_row) = Inr (start_row + int (length ls)) \<and>
          transport_writes (snd (write_text self string start_row)) =
            spec_lines_bytes start_row ls @ spec_cursor_bytes (start_row + int (length ls)) 0) \<and>
   (str_split string = [] \<and> 0 \<le> start_row \<and> start_row < LCD__rows self \<and> start_row < 4 \<and>
    0 < LCD__cols self \<longrightarrow>
      fst (write_text self string start_row) = Inr start_row \<and>
      transport_writes (snd (write_text self string start_row)) = spec_cursor_bytes start_row 0 \<and>
      length (transport_writes (snd (write_text self string start_row))) = 6) \<and>
   (str_split string = [] \<and> 4 \<le> start_row \<and> start_row < LCD__rows self \<longrightarrow>
      write_text self string start_row = (Inl (InvalidRowForCursor start_row), []))"
proof -
  have frame: "bind_io (write_i2c_byte self f) (\<lambda>_. toggle_enable self f) =
      (Inr (), frame_events (LCD__display_address self) f)" if "0 \<le> f" "f < 256" for f
    using that frame_enable_upper [OF that]
    by (simp add: write_i2c_byte_def toggle_enable_def emit_def frame_events_def LCD_ENABLE_BIT_def)
  have sb: "fst (send_byte self v mode) = Inr () \<and>
      transport_writes (snd (send_byte self v mode)) = spec_bus_bytes mode v"
    if "mode = LCD_COMMAND \<or> mode = LCD_CHARACTER" for v mode
  proof -
    have m: "0 \<le> mode" "mode < 256"
      using that by (auto simp: LCD_COMMAND_def LCD_CHARACTER_def)
    have "send_byte self v mode =
        (Inr (), frame_events (LCD__display_address self) ((mode OR (v AND 0xf0)) OR 8) @
                 frame_events (LCD__display_address self) ((mode OR (push_bit 4 v AND 0xf0)) OR 8))"
      using frame [OF frame_nonneg [OF m(1)] frame_upper [OF m]]
      by (simp add: send_byte_def Let_def ok_def)
    then show ?thesis using frames_bus_bytes [OF that] by simp
  qed
  have ws: "fst (write_string self t) = Inr () \<and>
      transport_writes (snd (write_string self t)) = spec_string_bytes t" for t
  proof -
    have "write_string self t =
        (Inr (), concat (map (\<lambda>c. snd (send_byte self (of_char c) LCD_CHARACTER)) t))"
      unfolding write_string_def using sb [of LCD_CHARACTER]
      by (subst for_each_ok) (simp_all add: write_character_def)
    then show ?thesis
      using sb [of LCD_CHARACTER]
      by (simp add: transport_writes_concat spec_string_bytes_def comp_def)
  qed
  have sc: "fst (set_cursor self r c) = Inr () \<and>
      transport_writes (snd (set_cursor self r c)) = spec_cursor_bytes r c"
    if "0 \<le> r" "r < 4" "0 \<le> c" "c < LCD__cols self"
      "[0x00, 0x40, 0x14, 0x54] ! nat r + c < 128" for r c
  proof -
    have "(LCD_SET_DDRAM OR c) + [0x00, 0x40, 0x14, 0x54] ! nat r =
        LCD_SET_DDRAM OR ([0x00, 0x40, 0x14, 0x54] ! nat r + c)"
      using that(3,5) row_offset_bounds(1) [OF that(1,2)] by (intro set_ddram_or_add)
    then have "set_cursor self r c =
        send_byte self (LCD_SET_DDRAM OR ([0x00, 0x40, 0x14, 0x54] ! nat r + c)) LCD_COMMAND"
      using that(1-4) by (simp add: set_cursor_def Let_def)
    then show ?thesis using sb [of LCD_COMMAND] by (simp add: spec_cursor_bytes_def)
  qed
  have sc0: "fst (set_cursor self r 0) = Inr () \<and>
      transport_writes (snd (set_cursor self r 0)) = spec_cursor_bytes r 0"
    if "0 \<le> r" "r < 4" "0 < LCD__cols self" for r
    using sc [OF that(1,2) _ that(3)] row_offset_bounds(2) [OF that(1,2)] by simp
  obtain ls fin where rp:
    "spec_render_plan (LCD__cols self) (nat (LCD__rows self - start_row)) (str_split string) = (ls, fin)"
    by (cases "spec_render_plan (LCD__cols self) (nat (LCD__rows self - start_row)) (str_split string)")
  have a: "start_row + int (length ls) < LCD__rows self \<and>
      fst (write_text self string start_row) = Inr (start_row + int (length ls)) \<and>
      transport_writes (snd (write_text self string start_row)) =
        spec_lines_bytes start_row ls @ spec_cursor_bytes (start_row + int (length ls)) 0"
    if "fin" "0 \<le> start_row" "start_row + int (length ls) < 4" "0 < LCD__cols self"
  proof -
    let ?r = "start_row + int (length ls)"
    from rp that(1) have rp': "spec_render_plan (LCD__cols self) (nat (LCD__rows self - start_row))
        (str_split string) = (ls, True)" by simp
    have below: "?r < LCD__rows self"
      using spec_render_plan_length [OF rp'] by (auto split: if_splits)
    have eq: "write_text self string start_row =
        bind_io (spec_write_lines self start_row ls)
          (\<lambda>_. bind_io (set_cursor self ?r 0) (\<lambda>_. ok ?r))"
      using write_outer_loop_plan [of 0 "str_split string" self start_row] rp'
      by (simp add: write_text_def spec_finish_def)
    have le: "?r \<le> 4" and r: "0 \<le> ?r" using that(2,3) by simp_all
    note wl = spec_write_lines_bus_bytes [of self start_row ls, OF sc0 ws that(2) le]
    from wl [OF _ _ that(4)] sc0 [OF r that(3,4)] below show ?thesis
      unfolding eq by (simp add: bind_io_succeeds ok_def)
  qed
  have il: "write_inner_loop (LCD__cols self) [] 0 [] = (0, [])"
    by (subst write_inner_loop.simps) simp
  have e: "write_text self string start_row =
      bind_io (set_cursor self start_row 0) (\<lambda>_. ok start_row)"
    if "str_split string = []" "start_row < LCD__rows self"
    unfolding write_text_def that(1) using that(2)
    by (subst write_outer_loop.simps) (simp add: il)
  have b: "fst (write_text self string start_row) = Inr start_row \<and>
      transport_writes (snd (write_text self string start_row)) = spec_cursor_bytes start_row 0 \<and>
      length (transport_writes (snd (write_text self string start_row))) = 6"
    if "str_split string = []" "0 \<le> start_row" "start_row < LCD__rows self" "start_row < 4"
      "0 < LCD__cols self"
    using sc0 [OF that(2,4,5)]
    unfolding e [OF that(1,3)]
    by (simp add: bind_io_succeeds ok_def spec_cursor_bytes_def spec_bus_bytes_def
        spec_nibble_frames_def)
  have c: "write_text self string start_row = (Inl (InvalidRowForCursor start_row), [])"
    if "str_split string = []" "4 \<le> start_row" "start_row < LCD__rows self"
    unfolding e [OF that(1,3)] using that(2) by (simp add: set_cursor_def Let_def raise_def)
  from a b c show ?thesis unfolding rp prod.case by blast
qed

theorem write_text_extra_cursor_set_witness:
  "str_split [] = [] \<and>
   fst (write_text example_display [] 2) = Inr 2 \<and>
   transport_writes (snd (write_text example_display [] 2)) = spec_cursor_bytes 2 0 \<and>
   transport_writes (snd (write_text example_display [] 2)) =
     [0x98, 0x9C, 0x98, 0x48, 0x4C, 0x48] \<and>
   str_split ''   '' = [] \<and>
   fst (write_text example_display ''   '' 0) = Inr 0 \<and>
   transport_writes (snd (write_text example_display ''   '' 0)) =
     [0x88, 0x8C, 0x88, 0x08, 0x0C, 0x08] \<and>
   spec_render_plan (LCD__cols example_display) (nat (LCD__rows example_display - 0))
     (str_split ''Three, sir!'') = ([''Three, sir!''], True) \<and>
   fst (write_text example_display ''Three, sir!'' 0) = Inr 1 \<and>
   transport_writes (snd (write_text example_display ''Three, sir!'' 0)) =
     spec_cursor_bytes 0 0 @ spec_string_bytes ''Three, sir!'' @ spec_cursor_bytes 1 0 \<and>
   spec_cursor_bytes 1 0 = [0xC8, 0xCC, 0xC8, 0x08, 0x0C, 0x08] \<and>
   (4::int) \<le> 4 \<and> 4 < LCD__rows (example_display\<lparr>LCD__rows := 5\<rparr>) \<and>
   write_text (example_display\<lparr>LCD__rows := 5\<rparr>) [] 4 = (Inl (InvalidRowForCursor 4), [])"
proof -
  have s: "str_split [] = []" "str_split ''   '' = []"
    "str_split ''Three, sir!'' = [''Three,'', ''sir!'']"
    by (simp_all add: str_split_def isspace_def)
  have p: "spec_render_plan (LCD__cols example_display) (nat (LCD__rows example_display - 0))
     (str_split ''Three, sir!'') = ([''Three, sir!''], True)"
    unfolding s by (simp add: example_geometry numeral_eq_Suc str_rstrip_def isspace_def)
  have v: "spec_cursor_bytes 2 0 = [0x98, 0x9C, 0x98, 0x48, 0x4C, 0x48]"
    "spec_cursor_bytes 0 0 = [0x88, 0x8C, 0x88, 0x08, 0x0C, 0x08]"
    "spec_cursor_bytes 1 0 = [0xC8, 0xCC, 0xC8, 0x08, 0x0C, 0x08]"
    by (simp_all add: spec_cursor_bytes_def spec_bus_bytes_def spec_nibble_frames_def
        LCD_COMMAND_def LCD_SET_DDRAM_def)
  have direct: "transport_writes (snd (write_text example_display [] 2)) =
      [0x98, 0x9C, 0x98, 0x48, 0x4C, 0x48]"
    unfolding write_text_def s
    by (subst write_outer_loop.simps)
      (simp add: write_inner_loop.simps set_cursor_def Let_def send_byte_def toggle_enable_def
        write_i2c_byte_def emit_def ok_def example_display_def
        LCD_SET_DDRAM_def LCD_COMMAND_def LCD_ENABLE_BIT_def)
  note t1 = write_text_extra_cursor_set [where self = example_display and start_row = 2 and string = "[]"]
  note t2 = write_text_extra_cursor_set [where self = example_display and start_row = 0 and string = "''   ''"]
  note t3 = write_text_extra_cursor_set [where self = example_display and start_row = 0 and string = "''Three, sir!''"]
  note t4 = write_text_extra_cursor_set [where self = "example_display\<lparr>LCD__rows := 5\<rparr>" and start_row = 4 and string = "[]"]
  from t1 s(1) have a: "fst (write_text example_display [] 2) = Inr 2 \<and>
      transport_writes (snd (write_text example_display [] 2)) = spec_cursor_bytes 2 0"
    by (simp add: example_geometry)
  from t2 s(2) v(2) have b: "fst (write_text example_display ''   '' 0) = Inr 0 \<and>
      transport_writes (snd (write_text example_display ''   '' 0)) = [0x88, 0x8C, 0x88, 0x08, 0x0C, 0x08]"
    by (simp add: example_geometry)
  from t3 [unfolded p] have c: "fst (write_text example_display ''Three, sir!'' 0) = Inr 1 \<and>
      transport_writes (snd (write_text example_display ''Three, sir!'' 0)) =
        spec_cursor_bytes 0 0 @ spec_string_bytes ''Three, sir!'' @ spec_cursor_bytes 1 0"
    by (simp add: example_geometry)
  from t4 s(1) have d: "(4::int) < LCD__rows (example_display\<lparr>LCD__rows := 5\<rparr>) \<and>
      write_text (example_display\<lparr>LCD__rows := 5\<rparr>) [] 4 = (Inl (InvalidRowForCursor 4), [])"
    by (simp add: example_display_def)
  from s(1,2) p v(3) direct a b c d show ?thesis by simp
qed

text \<open>
  Claim C10 as stated has \<open>write\<close> of the empty string from row \<open>r\<close> issue one
  cursor-set command and return \<open>r\<close> for every \<open>r\<close> in \<open>[0, rows)\<close>: on a
  display of five rows, from row 4, it raises from \<open>set_cursor\<close> and issues nothing.
\<close>

theorem write_text_fifth_row_counterexample:
  "str_split [] = [] \<and> (0::int) \<le> 4 \<and> 4 < LCD__rows (example_display\<lparr>LCD__rows := 5\<rparr>) \<and>
   write_text (example_display\<lparr>LCD__rows := 5\<rparr>) [] 4 = (Inl (InvalidRowForCursor 4), [])"
proof -
  have s: "str_split [] = []"
    by (simp add: str_split_def)
  have il: "write_inner_loop (LCD__cols (example_display\<lparr>LCD__rows := 5\<rparr>)) [] 0 [] = (0, [])"
    by (subst write_inner_loop.simps) simp
  have "write_outer_loop (example_display\<lparr>LCD__rows := 5\<rparr>) [] 0 4 =
      (Inl (InvalidRowForCursor 4), [])"
    by (subst write_outer_loop.simps) (simp add: il set_cursor_def Let_def raise_def)
  with s show ?thesis by (simp add: write_text_def example_display_def)
qed

subsection \<open>A single line\<close>

lemma split_from_words:
  "\<forall>c \<in> set w. \<not> isspace c \<Longrightarrow>
   \<forall>x \<in> set (split_from w s). x \<noteq> [] \<and> (\<forall>c \<in> set x. \<not> isspace c)"
proof (induction s arbitrary: w)
  case Nil
  then show ?case by auto
next
  case (Cons a s)
  show ?case
  proof (cases "isspace a")
    case True
    have e: "\<forall>x \<in> set (split_from [] s). x \<noteq> [] \<and> (\<forall>c \<in> set x. \<not> isspace c)"
      using Cons.IH [of "[]"] by simp
    show ?thesis using True e Cons.prems by (cases "w = []") auto
  next
    case False
    have "\<forall>c \<in> set (w @ [a]). \<not> isspace c" using False Cons.prems by auto
    from Cons.IH [OF this] show ?thesis using False by simp
  qed
qed

lemma str_split_words:
  "x \<in> set (str_split s) \<Longrightarrow> x \<noteq> [] \<and> (\<forall>c \<in> set x. \<not> isspace c)"
  using split_from_words [of "[]" s] by (simp add: str_split_def)

lemma concat_spaced:
  "ws \<noteq> [] \<Longrightarrow> concat (map (\<lambda>w. w @ '' '') ws) = join_words ws @ '' ''"
  by (induction ws rule: join_words.induct) simp_all

lemma join_words_length:
  "int (length (join_words (w # ws))) \<ge> int (length w)"
  by (cases ws) simp_all

lemma spec_pack_all_fit:
  "(ws \<noteq> [] \<longrightarrow> int (length line) + int (length (join_words ws)) \<le> cols) \<Longrightarrow>
   spec_pack cols line ws = (line @ concat (map (\<lambda>w. w @ '' '') ws), [])"
proof (induction ws arbitrary: line)
  case Nil
  show ?case by simp
next
  case (Cons w ws)
  have fit: "int (length line) + int (length w) \<le> cols"
    using Cons.prems join_words_length [of w ws] by simp
  have "ws \<noteq> [] \<longrightarrow> int (length (line @ w @ '' '')) + int (length (join_words ws)) \<le> cols"
    using Cons.prems by (cases ws) simp_all
  from Cons.IH [OF this] fit show ?case by simp
qed

lemma join_words_last:
  "ws \<noteq> [] \<Longrightarrow> \<forall>x \<in> set ws. x \<noteq> [] \<Longrightarrow>
   join_words ws \<noteq> [] \<and> last (join_words ws) = last (last ws)"
  by (induction ws rule: join_words.induct) auto

lemma str_rstrip_space:
  assumes "w \<noteq> []" "\<not> isspace (last w)"
  shows "str_rstrip (w @ '' '') = w"
proof -
  define l where "l = last w"
  define xs where "xs = butlast w"
  have w: "w = xs @ [l]" using assms(1) by (simp add: l_def xs_def)
  have sp: "isspace CHR '' ''" by (simp add: isspace_def)
  have "\<not> isspace l" using assms(2) by (simp add: l_def)
  then show ?thesis unfolding w using sp by (simp add: str_rstrip_def)
qed

lemma spec_render_plan_no_words:
  "spec_render_plan cols n [] = (if n = 0 then ([], False) else ([], True))"
  by (cases n) simp_all

lemma write_text_one_line:
  assumes "s \<noteq> []" "join_words (str_split s) = s" "int (length s) < LCD__cols self"
    "0 < LCD__rows self"
  shows "write_text self s 0 =
           (Inr 1, snd (set_cursor self 0 0) @ snd (write_string self s) @
                   (if 1 < LCD__rows self then snd (set_cursor self 1 0) else []))"
proof -
  let ?ws = "str_split s"
  have ne: "?ws \<noteq> []" using assms(1,2) by auto
  have words: "\<forall>x \<in> set ?ws. x \<noteq> []" using str_split_words by blast
  have lw: "last ?ws \<in> set ?ws" using ne by simp
  from join_words_last [OF ne words] assms(2)
  have ls: "last s = last (last ?ws)" by simp
  have "last (last ?ws) \<in> set (last ?ws)" using str_split_words [OF lw] by simp
  with str_split_words [OF lw] ls have nsp: "\<not> isspace (last s)" by auto
  have cols: "0 < LCD__cols self" using assms(3) by linarith
  have pack: "spec_pack (LCD__cols self) [] ?ws = (s @ '' '', [])"
    using spec_pack_all_fit [of ?ws "[]" "LCD__cols self"] assms(2,3) concat_spaced [OF ne]
    by simp
  define n where "n = nat (LCD__rows self - 1)"
  have n: "nat (LCD__rows self - 0) = Suc n" using assms(4) unfolding n_def by arith
  have n': "(n \<noteq> 0) = (1 < LCD__rows self)" unfolding n_def by arith
  have plan: "spec_render_plan (LCD__cols self) (nat (LCD__rows self - 0)) ?ws = ([s], n \<noteq> 0)"
    unfolding n
    by (simp add: pack str_rstrip_space [OF assms(1) nsp] spec_render_plan_no_words)
  have run: "write_text self s 0 =
      bind_io (spec_write_lines self 0 [s]) (\<lambda>_. spec_finish self 1 (1 < LCD__rows self))"
    using write_outer_loop_plan [of 0 ?ws self 0] plan n'
    by (simp add: write_text_def)
  have c0: "(0::int) \<le> 0" "(0::int) < 4" "(0::int) \<le> 1" "(1::int) < 4" by simp_all
  show ?thesis
    unfolding run
    by (simp add: spec_finish_def bind_set_cursor_ok [OF c0(1,2) cols]
        bind_set_cursor_ok [OF c0(3,4) cols] bind_write_string ok_def)
qed

lemma clear_ok: "clear self = (Inr (), snd (clear self))"
  by (simp add: clear_def send_byte_events)

lemma clear_writes:
  "transport_writes (snd (clear self)) = [0x08, 0x0C, 0x08, 0x18, 0x1C, 0x18]"
  by (simp add: clear_def send_byte_writes LCD_COMMAND_def LCD_CLEARDISPLAY_def)

text \<open>
  Claim C8, as the code has it. For every nonempty string shorter than \<open>cols\<close>
  that is made of words with single spaces between them and no other whitespace,
  on a display with at least one row, \<open>write(s, 0)\<close> returns 1 and puts on the bus
  the bytes of \<open>set_cursor(0, 0)\<close> and \<open>write_string(s)\<close>, followed, when the
  display has more than one row, by those of \<open>set_cursor(1, 0)\<close>. It never sends
  the clear command: the bytes of \<open>clear()\<close>, \<open>set_cursor(0, 0)\<close>,
  \<open>write_string(s)\<close> with that trailing cursor set appended are the six bytes of
  the clear command followed by the bytes of \<open>write(s, 0)\<close>.
\<close>

theorem write_one_line_round_trip:
  assumes "s \<noteq> []" "join_words (str_split s) = s" "int (length s) < LCD__cols self"
    "0 < LCD__rows self"
  shows "transport_writes (snd (bind_io (clear self) (\<lambda>_.
             bind_io (set_cursor self 0 0) (\<lambda>_. write_string self s)))) @
           (if 1 < LCD__rows self then transport_writes (snd (set_cursor self 1 0)) else []) =
         transport_writes (snd (clear self)) @ transport_writes (snd (write_text self s 0)) \<and>
         transport_writes (snd (clear self)) = [0x08, 0x0C, 0x08, 0x18, 0x1C, 0x18] \<and>
         fst (write_text self s 0) = Inr 1"
proof -
  have cols: "0 < LCD__cols self" using assms(3) by linarith
  have c0: "(0::int) \<le> 0" "(0::int) < 4" by simp_all
  have seq: "bind_io (clear self) (\<lambda>_. bind_io (set_cursor self 0 0) (\<lambda>_. write_string self s)) =
      (Inr (), snd (clear self) @ snd (set_cursor self 0 0) @ snd (write_string self s))"
    by (subst clear_ok) (simp add: bind_set_cursor_ok [OF c0 cols] write_string_events)
  show ?thesis
    unfolding seq write_text_one_line [OF assms]
    by (simp add: clear_writes)
qed


theorem write_one_line_round_trip_witness:
  "''Three, sir!'' \<noteq> [] \<and>
   join_words (str_split ''Three, sir!'') = ''Three, sir!'' \<and>
   int (length ''Three, sir!'') < LCD__cols example_display \<and>
   0 < LCD__rows example_display \<and>
   transport_writes (snd (bind_io (clear example_display) (\<lambda>_.
       bind_io (set_cursor example_display 0 0) (\<lambda>_. write_string example_display ''Three, sir!'')))) @
     (if 1 < LCD__rows example_display then transport_writes (snd (set_cursor example_display 1 0))
      else []) =
   transport_writes (snd (clear example_display)) @
     transport_writes (snd (write_text example_display ''Three, sir!'' 0)) \<and>
   transport_writes (snd (clear example_display)) = [0x08, 0x0C, 0x08, 0x18, 0x1C, 0x18] \<and>
   fst (write_text example_display ''Three, sir!'' 0) = Inr 1"
proof -
  have h: "''Three, sir!'' \<noteq> []"
    "join_words (str_split ''Three, sir!'') = ''Three, sir!''"
    "int (length ''Three, sir!'') < LCD__cols example_display"
    "0 < LCD__rows example_display"
    by (simp_all add: str_split_def isspace_def example_geometry)
  from write_one_line_round_trip [OF h] h show ?thesis by blast
qed

text \<open>
  Claim C8 as stated fails for the one-letter string \<open>a\<close> on the display of
  \<open>example.py\<close>: the sequence with \<open>clear\<close> starts with the clear command and
  ends with the letter, \<open>write\<close> starts with the cursor set and ends with the
  cursor set for row 1.
\<close>

theorem write_never_clears_counterexample:
  "int (length ''a'') < LCD__cols example_display \<and>
   transport_writes (snd (bind_io (clear example_display) (\<lambda>_.
       bind_io (set_cursor example_display 0 0) (\<lambda>_. write_string example_display ''a'')))) =
     [0x08, 0x0C, 0x08, 0x18, 0x1C, 0x18,
      0x88, 0x8C, 0x88, 0x08, 0x0C, 0x08,
      0x69, 0x6D, 0x69, 0x19, 0x1D, 0x19] \<and>
   transport_writes (snd (write_text example_display ''a'' 0)) =
     [0x88, 0x8C, 0x88, 0x08, 0x0C, 0x08,
      0x69, 0x6D, 0x69, 0x19, 0x1D, 0x19,
      0xC8, 0xCC, 0xC8, 0x08, 0x0C, 0x08] \<and>
   transport_writes (snd (bind_io (clear example_display) (\<lambda>_.
       bind_io (set_cursor example_display 0 0) (\<lambda>_. write_string example_display ''a'')))) \<noteq>
   transport_writes (snd (write_text example_display ''a'' 0))"
proof -
  have h: "''a'' \<noteq> []" "join_words (str_split ''a'') = ''a''"
    "int (length ''a'') < LCD__cols example_display" "0 < LCD__rows example_display"
    by (simp_all add: str_split_def isspace_def example_geometry)
  have sc: "transport_writes (snd (set_cursor example_display 0 0)) = [0x88, 0x8C, 0x88, 0x08, 0x0C, 0x08]"
    "transport_writes (snd (set_cursor example_display 1 0)) = [0xC8, 0xCC, 0xC8, 0x08, 0x0C, 0x08]"
    by (simp_all add: set_cursor_def Let_def example_geometry send_byte_writes
        LCD_SET_DDRAM_def LCD_COMMAND_def)
  have ws: "transport_writes (snd (write_string example_display ''a'')) =
      [0x69, 0x6D, 0x69, 0x19, 0x1D, 0x19]"
    by (simp add: write_string_events send_byte_writes LCD_CHARACTER_def)
  have c0: "(0::int) \<le> 0" "(0::int) < 4" "0 < LCD__cols example_display"
    by (simp_all add: example_geometry)
  have a: "transport_writes (snd (bind_io (clear example_display) (\<lambda>_.
       bind_io (set_cursor example_display 0 0) (\<lambda>_. write_string example_display ''a'')))) =
     [0x08, 0x0C, 0x08, 0x18, 0x1C, 0x18,
      0x88, 0x8C, 0x88, 0x08, 0x0C, 0x08,
      0x69, 0x6D, 0x69, 0x19, 0x1D, 0x19]"
    by (subst clear_ok) (use ws in \<open>auto simp: bind_set_cursor_ok [OF c0] clear_writes sc split: prod.splits\<close>)
  have b: "transport_writes (snd (write_text example_display ''a'' 0)) =
     [0x88, 0x8C, 0x88, 0x08, 0x0C, 0x08,
      0x69, 0x6D, 0x69, 0x19, 0x1D, 0x19,
      0xC8, 0xCC, 0xC8, 0x08, 0x0C, 0x08]"
    unfolding write_text_one_line [OF h] by (simp add: sc ws example_geometry)
  show ?thesis unfolding a b using h(3) by simp
qed

end
